theory Spec2Isabelle
  imports Main "HOL-Library.Word"
begin

unbundle bit_operations_syntax

section \<open>Bytes and errors\<close>

text \<open>
  A Go \<^verbatim>\<open>byte\<close> is an 8-bit word and a \<^verbatim>\<open>[]byte\<close> a list of them.  Every
  \<^verbatim>\<open>return nil, err\<close> and every run-time panic of the Go code is a value of type
  \<open>error\<close>; a function that can fail returns \<open>error + 'a\<close> with \<open>Inl\<close> for the failure.
\<close>

type_synonym byte = "8 word"
type_synonym bytes = "byte list"

datatype error =
    EOF
  | ErrMsg string
  | ErrUnsupportedEncodingParameters
  | Panic string

section \<open>Run-length codec (RunLengthEncoder)\<close>

text \<open>
  \<^verbatim>\<open>RunLengthEncoder.DecodeBytes\<close> reads the input through a \<^verbatim>\<open>bytes.Reader\<close>.
  The reader is the list of bytes still unread; \<^verbatim>\<open>ReadByte\<close> on the empty list is
  \<^verbatim>\<open>io.EOF\<close>.  \<open>readLiteral n\<close> is the inner loop of the branch \<^verbatim>\<open>b < 128\<close>: it
  reads \<open>n\<close> bytes one at a time and appends each to \<open>inb\<close>.
\<close>

fun readLiteral :: "nat \<Rightarrow> bytes \<Rightarrow> bytes \<Rightarrow> error + (bytes \<times> bytes)" where
  "readLiteral 0 rd inb = Inr (rd, inb)"
| "readLiteral (Suc n) [] inb = Inl EOF"
| "readLiteral (Suc n) (v # rd) inb = readLiteral n rd (inb @ [v])"

lemma readLiteral_length:
  "readLiteral n rd inb = Inr (rd', inb') \<Longrightarrow> length rd' \<le> length rd"
  by (induction n rd inb rule: readLiteral.induct) auto

function RunLength_DecodeLoop :: "bytes \<Rightarrow> bytes \<Rightarrow> error + bytes" where
  "RunLength_DecodeLoop [] inb = Inl EOF"
| "RunLength_DecodeLoop (b # rd) inb =
     (if b > 128 then
        (case rd of
           [] \<Rightarrow> Inl EOF
         | v # rd' \<Rightarrow> RunLength_DecodeLoop rd' (inb @ replicate (nat (257 - uint b)) v))
      else if b < 128 then
        (case readLiteral (nat (uint b + 1)) rd inb of
           Inl e \<Rightarrow> Inl e
         | Inr (rd', inb') \<Rightarrow> RunLength_DecodeLoop rd' inb')
      else Inr inb)"
  by pat_completeness auto
termination
  by (relation "measure (\<lambda>(rd, inb). length rd)")
     (auto dest: readLiteral_length)

definition RunLength_DecodeBytes :: "bytes \<Rightarrow> error + bytes" where
  "RunLength_DecodeBytes encoded = RunLength_DecodeLoop encoded []"

text \<open>
  \<^verbatim>\<open>RunLengthEncoder.EncodeBytes\<close>.  The loop state holds the output \<^verbatim>\<open>inb\<close>, the
  pending \<^verbatim>\<open>literal\<close>, the run length \<^verbatim>\<open>runLen\<close> (a Go \<^verbatim>\<open>int\<close>) and the previous
  byte \<^verbatim>\<open>b0\<close>, as the fields \<open>rl_inb\<close>, \<open>rl_literal\<close>, \<open>rl_runLen\<close> and \<open>rl_b0\<close>.  \<open>rl_step b\<close> is one pass through the loop body for the byte \<open>b\<close> just read;
  \<^verbatim>\<open>byte(n)\<close> of an \<^verbatim>\<open>int\<close> is \<open>word_of_int\<close>.
\<close>

record rl_state =
  rl_inb :: bytes
  rl_literal :: bytes
  rl_runLen :: int
  rl_b0 :: byte

definition rl_step :: "rl_state \<Rightarrow> byte \<Rightarrow> rl_state" where
  "rl_step s b =
     (if b = rl_b0 s then
        (let s1 = (if length (rl_literal s) > 0 then
                     (let lit = butlast (rl_literal s);
                          out = (if length lit > 0
                                 then rl_inb s @ [word_of_int (int (length lit) - 1)] @ lit
                                 else rl_inb s)
                      in s\<lparr>rl_inb := out, rl_literal := [], rl_runLen := 1\<rparr>)
                   else s);
             s2 = s1\<lparr>rl_runLen := rl_runLen s1 + 1\<rparr>;
             s3 = (if rl_runLen s2 \<ge> 127
                   then s2\<lparr>rl_inb := rl_inb s2 @ [word_of_int (257 - rl_runLen s2), rl_b0 s2], rl_runLen := 0\<rparr>
                   else s2)
         in s3\<lparr>rl_b0 := b\<rparr>)
      else
        (let s1 = (if rl_runLen s > 0 then
                     (if rl_runLen s = 1 then s\<lparr>rl_literal := [rl_b0 s], rl_runLen := 0\<rparr>
                      else s\<lparr>rl_inb := rl_inb s @ [word_of_int (257 - rl_runLen s), rl_b0 s], rl_runLen := 0\<rparr>)
                   else s);
             s2 = s1\<lparr>rl_literal := rl_literal s1 @ [b]\<rparr>;
             s3 = (if length (rl_literal s2) \<ge> 127
                   then s2\<lparr>rl_inb := rl_inb s2 @ [word_of_int (int (length (rl_literal s2)) - 1)] @ rl_literal s2,
                            rl_literal := []\<rparr>
                   else s2)
         in s3\<lparr>rl_b0 := b\<rparr>))"

definition rl_finish :: "rl_state \<Rightarrow> bytes" where
  "rl_finish s =
     (let out = (if length (rl_literal s) > 0
                 then rl_inb s @ [word_of_int (int (length (rl_literal s)) - 1)] @ rl_literal s
                 else if rl_runLen s > 0 then rl_inb s @ [word_of_int (257 - rl_runLen s), rl_b0 s]
                 else rl_inb s)
      in out @ [128])"

definition RunLength_EncodeBytes :: "bytes \<Rightarrow> error + bytes" where
  "RunLength_EncodeBytes data =
     (case data of
        [] \<Rightarrow> Inr []
      | b # rest \<Rightarrow>
          Inr (rl_finish (foldl rl_step \<lparr>rl_inb = [], rl_literal = [], rl_runLen = 1, rl_b0 = b\<rparr> rest)))"


section \<open>White space\<close>

text \<open>
  Modelled from the spec: \<^verbatim>\<open>IsWhiteSpace\<close> is called by the ASCII-hex and ASCII-85
  decoders but is declared in a file that is not part of the sources.  The spec says only
  that the decoders ignore white space; the six white-space characters of the file
  format (NUL, TAB, LF, FF, CR and SP) are taken.
\<close>

definition IsWhiteSpace :: "byte \<Rightarrow> bool" where
  "IsWhiteSpace ch \<longleftrightarrow> ch = 0x00 \<or> ch = 0x09 \<or> ch = 0x0A \<or> ch = 0x0C \<or> ch = 0x0D \<or> ch = 0x20"

section \<open>ASCII hex codec (ASCIIHexEncoder)\<close>

text \<open>
  \<open>hexCollect\<close> is the reading loop of \<^verbatim>\<open>ASCIIHexEncoder.DecodeBytes\<close>: it stops at
  \<^verbatim>\<open>'>'\<close> (0x3E), skips white space, keeps hexadecimal digits and rejects any other
  byte; running out of input before \<^verbatim>\<open>'>'\<close> is \<^verbatim>\<open>io.EOF\<close>.
\<close>

definition isHexChar :: "byte \<Rightarrow> bool" where
  "isHexChar b \<longleftrightarrow> (b \<ge> 0x61 \<and> b \<le> 0x66) \<or> (b \<ge> 0x41 \<and> b \<le> 0x46) \<or> (b \<ge> 0x30 \<and> b \<le> 0x39)"

fun hexCollect :: "bytes \<Rightarrow> bytes \<Rightarrow> error + bytes" where
  "hexCollect [] inb = Inl EOF"
| "hexCollect (b # rd) inb =
     (if b = 0x3E then Inr inb
      else if IsWhiteSpace b then hexCollect rd inb
      else if isHexChar b then hexCollect rd (inb @ [b])
      else Inl (ErrMsg ''Invalid ascii hex character''))"

text \<open>
  \<^verbatim>\<open>hex.Decode\<close> of the Go library (\<^verbatim>\<open>encoding/hex\<close>): every two digits give one
  byte; a byte that is no digit, or a digit left alone at the end, is an error.
\<close>

definition fromHexChar :: "byte \<Rightarrow> byte option" where
  "fromHexChar c =
     (if 0x30 \<le> c \<and> c \<le> 0x39 then Some (c - 0x30)
      else if 0x61 \<le> c \<and> c \<le> 0x66 then Some (c - 0x61 + 10)
      else if 0x41 \<le> c \<and> c \<le> 0x46 then Some (c - 0x41 + 10)
      else None)"

fun hex_Decode :: "bytes \<Rightarrow> error + bytes" where
  "hex_Decode [] = Inr []"
| "hex_Decode [c] = Inl (ErrMsg ''encoding/hex: odd length hex string'')"
| "hex_Decode (c # d # rest) =
     (case (fromHexChar c, fromHexChar d) of
        (Some a, Some b) \<Rightarrow>
          (case hex_Decode rest of
             Inl e \<Rightarrow> Inl e
           | Inr out \<Rightarrow> Inr ((push_bit 4 a OR b) # out))
      | _ \<Rightarrow> Inl (ErrMsg ''encoding/hex: invalid byte''))"

definition ASCIIHex_DecodeBytes :: "bytes \<Rightarrow> error + bytes" where
  "ASCIIHex_DecodeBytes encoded =
     (case hexCollect encoded [] of
        Inl e \<Rightarrow> Inl e
      | Inr inb \<Rightarrow> hex_Decode (if length inb mod 2 = 1 then inb @ [0x30] else inb))"

text \<open>
  \<^verbatim>\<open>ASCIIHexEncoder.EncodeBytes\<close> prints every byte with \<^verbatim>\<open>"%.2X "\<close>: two upper-case
  hexadecimal digits and a space; \<^verbatim>\<open>'>'\<close> ends the output.
\<close>

definition upperHexDigit :: "byte \<Rightarrow> byte" where
  "upperHexDigit n = (if n < 10 then 0x30 + n else 0x41 + (n - 10))"

definition ASCIIHex_EncodeBytes :: "bytes \<Rightarrow> error + bytes" where
  "ASCIIHex_EncodeBytes data =
     Inr (concat (map (\<lambda>b. [upperHexDigit (drop_bit 4 b), upperHexDigit (b AND 0x0F), 0x20]) data)
          @ [0x3E])"

section \<open>ASCII-85 codec (ASCII85Encoder)\<close>

text \<open>
  \<^verbatim>\<open>ASCII85Encoder.DecodeBytes\<close>.  \<open>a85_inner\<close> is the inner loop
  \<^verbatim>\<open>for j < 5+spaces\<close> that reads one group starting at index \<open>i\<close>; it returns the
  final \<open>j\<close>, \<open>toWrite\<close>, the five \<open>codes\<close> and the flag \<open>eod\<close>.  The characters are
  \<^verbatim>\<open>'!'\<close> = 0x21, \<^verbatim>\<open>'u'\<close> = 0x75, \<^verbatim>\<open>'z'\<close> = 0x7A, \<^verbatim>\<open>'~'\<close> = 0x7E and
  \<^verbatim>\<open>'>'\<close> = 0x3E.  An index past the end of a slice panics in Go.
\<close>

function a85_inner :: "bytes \<Rightarrow> nat \<Rightarrow> nat \<Rightarrow> nat \<Rightarrow> bytes \<Rightarrow> error + (nat \<times> int \<times> bytes \<times> bool)" where
  "a85_inner encoded i j spaces codes =
     (if j < 5 + spaces then
        (if i + j = length encoded then Inr (j, 4, codes, False)
         else if i + j > length encoded then Inl (Panic ''index out of range'')
         else
           (let code = encoded ! (i + j) in
            if IsWhiteSpace code then a85_inner encoded i (j + 1) (spaces + 1) codes
            else if code = 0x7E \<and> i + j + 1 < length encoded \<and> encoded ! (i + j + 1) = 0x3E then
              Inr (j, max 0 (int j - int spaces - 1), codes, True)
            else if code \<ge> 0x21 \<and> code \<le> 0x75 then
              (if j < spaces \<or> j - spaces \<ge> length codes then Inl (Panic ''index out of range'')
               else a85_inner encoded i (j + 1) spaces (codes[j - spaces := code - 0x21]))
            else if code = 0x7A \<and> int j - int spaces = 0 then Inr (j + 1, 4, codes, False)
            else Inl (ErrMsg ''Invalid code encountered'')))
      else Inr (j, 4, codes, False))"
  by pat_completeness auto
termination
  by (relation "measure (\<lambda>(encoded, i, j, spaces, codes). length encoded - (i + j))") auto

declare a85_inner.simps [simp del]

text \<open>The padding loop \<^verbatim>\<open>for m := toWrite + 1; m < 5; m++ { codes[m] = 84 }\<close>.\<close>

definition a85_pad :: "int \<Rightarrow> bytes \<Rightarrow> bytes" where
  "a85_pad toWrite codes = take (nat (toWrite + 1)) codes @ replicate (5 - nat (toWrite + 1)) 84"

text \<open>The five codes as a \<^verbatim>\<open>uint32\<close> (the arithmetic wraps), and its four bytes.\<close>

definition a85_value :: "bytes \<Rightarrow> 32 word" where
  "a85_value codes =
     ucast (codes ! 0) * 85 * 85 * 85 * 85 + ucast (codes ! 1) * 85 * 85 * 85
     + ucast (codes ! 2) * 85 * 85 + ucast (codes ! 3) * 85 + ucast (codes ! 4)"

definition a85_decodedBytes :: "32 word \<Rightarrow> bytes" where
  "a85_decodedBytes v =
     [ucast (drop_bit 24 v AND 0xff), ucast (drop_bit 16 v AND 0xff),
      ucast (drop_bit 8 v AND 0xff), ucast (v AND 0xff)]"

lemma a85_inner_progress:
  "a85_inner encoded i j spaces codes = Inr (j', tw, codes', eod') \<Longrightarrow>
     j \<le> j' \<and> (i + j < length encoded \<and> j < 5 + spaces \<and> \<not> eod' \<longrightarrow> j < j')"
proof (induction encoded i j spaces codes rule: a85_inner.induct)
  case (1 encoded i j spaces codes)
  show ?case
    using "1.prems" "1.IH"
    apply (subst (asm) a85_inner.simps)
    apply (simp only: Let_def split: if_splits)
    apply auto
    done
qed

function a85_outer :: "bytes \<Rightarrow> nat \<Rightarrow> bool \<Rightarrow> bytes \<Rightarrow> error + bytes" where
  "a85_outer encoded i eod decoded =
     (if i < length encoded \<and> \<not> eod then
        (case a85_inner encoded i 0 0 [0, 0, 0, 0, 0] of
           Inl e \<Rightarrow> Inl e
         | Inr (j, toWrite, codes, eod') \<Rightarrow>
             a85_outer encoded (i + j) eod'
               (decoded @ take (nat toWrite) (a85_decodedBytes (a85_value (a85_pad toWrite codes)))))
      else Inr decoded)"
  by pat_completeness auto
termination
proof (relation "measure (\<lambda>(encoded, i, eod, decoded). if eod then 0 else 1 + (length encoded - i))",
    goal_cases)
  case 1
  show ?case by simp
next
  case (2 encoded i eod decoded x2 j y toWrite z codes eod')
  then show ?case
    using a85_inner_progress [of encoded i 0 0 "[0, 0, 0, 0, 0]" j toWrite codes eod']
    by auto
qed

declare a85_outer.simps [simp del]

definition ASCII85_DecodeBytes :: "bytes \<Rightarrow> error + bytes" where
  "ASCII85_DecodeBytes encoded = a85_outer encoded 0 False []"

text \<open>
  \<^verbatim>\<open>base256Tobase85\<close>: the five base-85 digits of a \<^verbatim>\<open>uint32\<close>, most significant
  first.  The divider of digit \<open>i\<close> is \<open>85 ^ (4 - i)\<close>, computed in \<^verbatim>\<open>uint32\<close>.
\<close>

fun base85_digits :: "nat \<Rightarrow> 32 word \<Rightarrow> bytes" where
  "base85_digits 0 remainder = []"
| "base85_digits (Suc k) remainder =
     ucast (remainder div 85 ^ k) # base85_digits k (remainder mod 85 ^ k)"

definition base256Tobase85 :: "32 word \<Rightarrow> bytes" where
  "base256Tobase85 base256val = base85_digits 5 base256val"

text \<open>
  \<^verbatim>\<open>ASCII85Encoder.EncodeBytes\<close>: one group of up to four bytes per pass of the loop
  \<^verbatim>\<open>for i := 0; i < len(data); i += 4\<close>; \<open>n\<close> counts the bytes of the group that exist.
\<close>

definition a85_group :: "bytes \<Rightarrow> bytes" where
  "a85_group g =
     (let n = length g;
          b1 = g ! 0;
          b2 = (if 1 < n then g ! 1 else 0);
          b3 = (if 2 < n then g ! 2 else 0);
          b4 = (if 3 < n then g ! 3 else 0);
          base256 = push_bit 24 (ucast b1) OR push_bit 16 (ucast b2) OR push_bit 8 (ucast b3) OR ucast b4
      in if base256 = (0 :: 32 word) then [0x7A]
         else map (\<lambda>val. val + 0x21) (take (n + 1) (base256Tobase85 base256)))"

function a85_encode_loop :: "bytes \<Rightarrow> bytes" where
  "a85_encode_loop data =
     (if data = [] then [] else a85_group (take 4 data) @ a85_encode_loop (drop 4 data))"
  by pat_completeness auto
termination
  by (relation "measure length") auto

declare a85_encode_loop.simps [simp del]

definition ASCII85_EncodeBytes :: "bytes \<Rightarrow> error + bytes" where
  "ASCII85_EncodeBytes data = Inr (a85_encode_loop data @ [0x7E, 0x3E])"

section \<open>Raw codec (RawEncoder)\<close>

definition Raw_DecodeBytes :: "bytes \<Rightarrow> error + bytes" where
  "Raw_DecodeBytes encoded = Inr encoded"

definition Raw_EncodeBytes :: "bytes \<Rightarrow> error + bytes" where
  "Raw_EncodeBytes data = Inr data"


section \<open>Compression libraries\<close>



section \<open>LZW codec (LZWEncoder)\<close>





section \<open>Predictors and the flate codec (FlateEncoder)\<close>

text \<open>
  The rows of a buffer: \<open>chunks n xs\<close> are the slices
  \<^verbatim>\<open>xs[n*i : n*(i+1)]\<close> for \<open>i < length xs div n\<close>, for a row length \<open>n > 0\<close>.
\<close>

function chunks :: "nat \<Rightarrow> 'a list \<Rightarrow> 'a list list" where
  "chunks n xs = (if n = 0 \<or> length xs < n then [] else take n xs # chunks n (drop n xs))"
  by pat_completeness auto
termination
  by (relation "measure (\<lambda>(n, xs). length xs)") auto

declare chunks.simps [simp del]













text \<open>
  \<^verbatim>\<open>FlateEncoder.EncodeBytes\<close>.  For predictor 11 each row of \<^verbatim>\<open>enc.Columns\<close> bytes is
  written as the byte 1 (the Sub filter) followed by the first byte and the differences
  of neighbouring bytes.
\<close>

definition png_sub_encode_row :: "nat \<Rightarrow> bytes \<Rightarrow> bytes" where
  "png_sub_encode_row rowLength rowData =
     1 # rowData ! 0 # map (\<lambda>j. rowData ! j - rowData ! (j - 1)) [1..<rowLength]"




section \<open>Go slices\<close>

text \<open>
  \<^verbatim>\<open>s[lo:hi]\<close> panics unless \<open>0 \<le> lo \<le> hi \<le> cap(s)\<close>.  The capacity of a slice is
  taken to be its length, which holds for the slices sliced in the modelled code (byte
  strings of the document and fresh digests).
\<close>

definition slice :: "'a list \<Rightarrow> int \<Rightarrow> int \<Rightarrow> error + 'a list" where
  "slice s lo hi =
     (if 0 \<le> lo \<and> lo \<le> hi \<and> hi \<le> int (length s)
      then Inr (take (nat (hi - lo)) (drop (nat lo) s))
      else Inl (Panic ''slice bounds out of range''))"

section \<open>Cryptographic libraries\<close>

text \<open>
  The security handler calls \<^verbatim>\<open>crypto/md5\<close>, \<^verbatim>\<open>crypto/sha256\<close>, \<^verbatim>\<open>crypto/sha512\<close>,
  \<^verbatim>\<open>crypto/rc4\<close>, \<^verbatim>\<open>crypto/aes\<close> and \<^verbatim>\<open>crypto/rand\<close> of the Go library.  They are
  parameters of the model, each with the type that the library fixes:
  \<^item> a hash function maps the bytes written to it to a digest of its width;
  \<^item> RC4 is a stream cipher: a key determines a key stream, and \<^verbatim>\<open>XORKeyStream\<close>
    combines the data with it byte by byte;
  \<^item> AES maps a key and a block of 128 bits to a block, in each direction;
  \<^item> the random source gives the bytes of its \<open>k\<close>-th read.
\<close>

record prims =
  md5_digest :: "bytes \<Rightarrow> 128 word"
  sha256_digest :: "bytes \<Rightarrow> 256 word"
  sha384_digest :: "bytes \<Rightarrow> 384 word"
  sha512_digest :: "bytes \<Rightarrow> 512 word"
  rc4_keystream :: "bytes \<Rightarrow> nat \<Rightarrow> byte"
  aes_encrypt_block :: "bytes \<Rightarrow> 128 word \<Rightarrow> 128 word"
  aes_decrypt_block :: "bytes \<Rightarrow> 128 word \<Rightarrow> 128 word"
  rand_read :: "nat \<Rightarrow> nat \<Rightarrow> bytes"

text \<open>The \<open>n\<close> bytes of a word, most significant first, and the word of a list of bytes.\<close>

definition word_bytes :: "nat \<Rightarrow> 'a::len word \<Rightarrow> bytes" where
  "word_bytes n w = map (\<lambda>i. ucast (drop_bit (8 * (n - 1 - i)) w)) [0..<n]"

definition bytes_word :: "bytes \<Rightarrow> 'a::len word" where
  "bytes_word bs = foldl (\<lambda>w b. push_bit 8 w OR ucast b) 0 bs"

definition md5_Sum :: "prims \<Rightarrow> bytes \<Rightarrow> bytes" where
  "md5_Sum pr d = word_bytes 16 (md5_digest pr d)"

definition sha256_Sum :: "prims \<Rightarrow> bytes \<Rightarrow> bytes" where
  "sha256_Sum pr d = word_bytes 32 (sha256_digest pr d)"

definition sha384_Sum :: "prims \<Rightarrow> bytes \<Rightarrow> bytes" where
  "sha384_Sum pr d = word_bytes 48 (sha384_digest pr d)"

definition sha512_Sum :: "prims \<Rightarrow> bytes \<Rightarrow> bytes" where
  "sha512_Sum pr d = word_bytes 64 (sha512_digest pr d)"

text \<open>
  \<^verbatim>\<open>rc4.NewCipher\<close> rejects a key of fewer than 1 or more than 256 bytes;
  \<^verbatim>\<open>XORKeyStream\<close> of a new cipher starts at position 0 of the key stream.
\<close>

definition rc4_NewCipher :: "bytes \<Rightarrow> error + bytes" where
  "rc4_NewCipher key =
     (if length key < 1 \<or> length key > 256 then Inl (ErrMsg ''crypto/rc4: invalid key size'')
      else Inr key)"

definition XORKeyStream :: "prims \<Rightarrow> bytes \<Rightarrow> bytes \<Rightarrow> bytes" where
  "XORKeyStream pr key src = map (\<lambda>(i, b). b XOR rc4_keystream pr key i) (zip [0..<length src] src)"

text \<open>
  \<^verbatim>\<open>aes.NewCipher\<close> accepts keys of 16, 24 and 32 bytes.  The modes of
  \<^verbatim>\<open>crypto/cipher\<close> work on whole blocks of 16 bytes: \<^verbatim>\<open>CryptBlocks\<close> panics on any
  other length.  Cipher block chaining encrypts each block after combining it with the
  previous cipher block (the initialisation vector for the first).
\<close>

definition aes_NewCipher :: "bytes \<Rightarrow> error + bytes" where
  "aes_NewCipher key =
     (if length key = 16 \<or> length key = 24 \<or> length key = 32 then Inr key
      else Inl (ErrMsg ''crypto/aes: invalid key size''))"

function blocks16 :: "bytes \<Rightarrow> 128 word list" where
  "blocks16 bs = (if length bs < 16 then [] else bytes_word (take 16 bs) # blocks16 (drop 16 bs))"
  by pat_completeness auto
termination
  by (relation "measure length") auto

declare blocks16.simps [simp del]

definition unblocks16 :: "128 word list \<Rightarrow> bytes" where
  "unblocks16 ws = concat (map (word_bytes 16) ws)"

fun cbc_encrypt_blocks :: "(128 word \<Rightarrow> 128 word) \<Rightarrow> 128 word \<Rightarrow> 128 word list \<Rightarrow> 128 word list" where
  "cbc_encrypt_blocks f iv [] = []"
| "cbc_encrypt_blocks f iv (p # ps) = (let c = f (p XOR iv) in c # cbc_encrypt_blocks f c ps)"

fun cbc_decrypt_blocks :: "(128 word \<Rightarrow> 128 word) \<Rightarrow> 128 word \<Rightarrow> 128 word list \<Rightarrow> 128 word list" where
  "cbc_decrypt_blocks f iv [] = []"
| "cbc_decrypt_blocks f iv (c # cs) = (f c XOR iv) # cbc_decrypt_blocks f c cs"

definition CBCEncrypt :: "prims \<Rightarrow> bytes \<Rightarrow> bytes \<Rightarrow> bytes \<Rightarrow> error + bytes" where
  "CBCEncrypt pr key iv src =
     (if length iv \<noteq> 16 then Inl (Panic ''cipher.NewCBCEncrypter: IV length must equal block size'')
      else if length src mod 16 \<noteq> 0 then Inl (Panic ''crypto/cipher: input not full blocks'')
      else Inr (unblocks16 (cbc_encrypt_blocks (aes_encrypt_block pr key) (bytes_word iv) (blocks16 src))))"

definition CBCDecrypt :: "prims \<Rightarrow> bytes \<Rightarrow> bytes \<Rightarrow> bytes \<Rightarrow> error + bytes" where
  "CBCDecrypt pr key iv src =
     (if length iv \<noteq> 16 then Inl (Panic ''cipher.NewCBCDecrypter: IV length must equal block size'')
      else if length src mod 16 \<noteq> 0 then Inl (Panic ''crypto/cipher: input not full blocks'')
      else Inr (unblocks16 (cbc_decrypt_blocks (aes_decrypt_block pr key) (bytes_word iv) (blocks16 src))))"

section \<open>The security handler (PdfCrypt)\<close>

text \<open>
  The fields of \<^verbatim>\<open>PdfCrypt\<close> that the modelled functions read or write.  \<^verbatim>\<open>V\<close>,
  \<^verbatim>\<open>Length\<close>, \<^verbatim>\<open>R\<close> and \<^verbatim>\<open>P\<close> are Go \<^verbatim>\<open>int\<close>s; the two maps of processed objects are
  sets of object identities (addresses).
\<close>

record CryptFilter =
  Cfm :: string
  cf_Length :: int

record PdfCrypt =
  crypt_V :: int
  crypt_Length :: int
  crypt_R :: int
  crypt_O :: bytes
  crypt_U :: bytes
  crypt_OE :: bytes
  crypt_UE :: bytes
  crypt_P :: int
  crypt_Perms :: bytes
  EncryptMetadata :: bool
  Id0 :: bytes
  EncryptionKey :: bytes
  DecryptedObjects :: "nat set"
  EncryptedObjects :: "nat set"
  Authenticated :: bool
  CryptFilters :: "string \<rightharpoonup> CryptFilter"
  StreamFilter :: string
  StringFilter :: string

record AccessPermissions =
  Printing :: bool
  Modify :: bool
  ExtractGraphics :: bool
  Annotate :: bool
  FillForms :: bool
  DisabilityExtract :: bool
  RotateInsert :: bool
  FullPrintQuality :: bool

text \<open>\<^verbatim>\<open>AccessPermissions{}\<close>: every field false.\<close>

definition noPermissions :: AccessPermissions where
  "noPermissions = \<lparr>Printing = False, Modify = False, ExtractGraphics = False, Annotate = False,
                     FillForms = False, DisabilityExtract = False, RotateInsert = False,
                     FullPrintQuality = False\<rparr>"

text \<open>The permissions of the owner: every field true.\<close>

definition allPermissions :: AccessPermissions where
  "allPermissions = \<lparr>Printing = True, Modify = True, ExtractGraphics = True, Annotate = True,
                      FillForms = True, DisabilityExtract = True, RotateInsert = True,
                      FullPrintQuality = True\<rparr>"

definition GetAccessPermissions :: "PdfCrypt \<Rightarrow> AccessPermissions" where
  "GetAccessPermissions crypt =
     (let perms = noPermissions;
          P = crypt_P crypt;
          perms = (if P AND push_bit 2 1 > 0 then perms\<lparr>Printing := True\<rparr> else perms);
          perms = (if P AND push_bit 3 1 > 0 then perms\<lparr>Modify := True\<rparr> else perms);
          perms = (if P AND push_bit 4 1 > 0 then perms\<lparr>ExtractGraphics := True\<rparr> else perms);
          perms = (if P AND push_bit 5 1 > 0 then perms\<lparr>Annotate := True\<rparr> else perms);
          perms = (if P AND push_bit 8 1 > 0 then perms\<lparr>FillForms := True\<rparr> else perms);
          perms = (if P AND push_bit 9 1 > 0 then perms\<lparr>DisabilityExtract := True\<rparr> else perms);
          perms = (if P AND push_bit 10 1 > 0 then perms\<lparr>RotateInsert := True\<rparr> else perms);
          perms = (if P AND push_bit 11 1 > 0 then perms\<lparr>FullPrintQuality := True\<rparr> else perms)
      in perms)"

text \<open>The 32 bytes of the constant \<^verbatim>\<open>padding\<close>.\<close>

definition padding :: bytes where
  "padding = [0x28, 0xBF, 0x4E, 0x5E, 0x4E, 0x75, 0x8A, 0x41, 0x64, 0x00, 0x4E, 0x56, 0xFF,
              0xFA, 0x01, 0x08, 0x2E, 0x2E, 0x00, 0xB6, 0xD0, 0x68, 0x3E, 0x80, 0x2F, 0x0C,
              0xA9, 0xFE, 0x64, 0x53, 0x69, 0x7A]"

definition paddedPass :: "bytes \<Rightarrow> bytes" where
  "paddedPass pass =
     (if length pass \<ge> 32 then take 32 pass
      else pass @ take (32 - length pass) padding)"

text \<open>
  \<^verbatim>\<open>makeKey\<close>: the key of one object.  \<open>le_bytes n x\<close> are the \<open>n\<close> low-order bytes of
  the \<^verbatim>\<open>uint32\<close> \<open>x\<close>, lowest first, as the two loops over \<^verbatim>\<open>objNum\<close> and \<^verbatim>\<open>genNum\<close>
  write them.
\<close>

definition le_bytes :: "nat \<Rightarrow> 32 word \<Rightarrow> bytes" where
  "le_bytes n x = map (\<lambda>i. ucast (drop_bit (8 * i) x AND 0xff)) [0..<n]"

definition makeKey :: "prims \<Rightarrow> PdfCrypt \<Rightarrow> string \<Rightarrow> 32 word \<Rightarrow> 32 word \<Rightarrow> bytes \<Rightarrow> error + bytes" where
  "makeKey pr crypt filter' objNum genNum ekey =
     (case CryptFilters crypt filter' of
        None \<Rightarrow> Inl (ErrMsg ''Unsupported crypt filter'')
      | Some cf \<Rightarrow>
          if Cfm cf = ''AESV3'' then Inr ekey
          else
            (let isAES2 = (Cfm cf = ''AESV2'');
                 key = ekey @ le_bytes 3 objNum @ le_bytes 2 genNum;
                 key = (if isAES2 then key @ [0x73, 0x41, 0x6C, 0x54] else key);
                 hashb = md5_Sum pr key
             in if int (length ekey) + 5 < 16 then slice hashb 0 (int (length ekey) + 5)
                else Inr hashb))"

section \<open>Algorithm 2.B (alg2b)\<close>

text \<open>
  \<^verbatim>\<open>alg2b_R5\<close> is one SHA-256.  \<open>alg2b_round\<close> is the closure \<^verbatim>\<open>round\<close> of
  \<^verbatim>\<open>alg2b\<close>, as a function of the current \<open>K\<close> that returns \<open>E\<close> and the next \<open>K\<close>:
  \<^verbatim>\<open>buf[:n*64]\<close> panics when \<open>n * 64\<close> exceeds the size of \<^verbatim>\<open>buf\<close>;
  \<^verbatim>\<open>repeat(K1, n)\<close> leaves in \<^verbatim>\<open>K1\<close> its first \<open>n\<close> bytes 64 times; the sum of the
  first 16 bytes of \<open>E\<close>, each taken modulo 3, selects the next hash.
\<close>

definition alg2b_R5 :: "prims \<Rightarrow> bytes \<Rightarrow> bytes" where
  "alg2b_R5 pr data = sha256_Sum pr data"

definition alg2b_round :: "prims \<Rightarrow> bytes \<Rightarrow> bytes \<Rightarrow> bytes \<Rightarrow> error + (bytes \<times> bytes)" where
  "alg2b_round pr pwd userKey K =
     (let n = length pwd + length K + length userKey in
      if n * 64 > 64 * (127 + 64 + 48) then Inl (Panic ''slice bounds out of range'')
      else
        (let part = pwd @ K @ userKey;
             K1 = concat (replicate 64 part)
         in case slice K 0 16 of
              Inl e \<Rightarrow> Inl e
            | Inr key \<Rightarrow>
                (case aes_NewCipher key of
                   Inl e \<Rightarrow> Inl (Panic ''crypto/aes: invalid key size'')
                 | Inr ac \<Rightarrow>
                     (case slice K 16 32 of
                        Inl e \<Rightarrow> Inl e
                      | Inr iv \<Rightarrow>
                          (case CBCEncrypt pr ac iv K1 of
                             Inl e \<Rightarrow> Inl e
                           | Inr E \<Rightarrow>
                               if length E < 16 then Inl (Panic ''index out of range'')
                               else
                                 (let b = sum_list (map (\<lambda>i. uint (E ! i mod 3)) [0..<16]);
                                      K' = (if b mod 3 = 0 then sha256_Sum pr E
                                            else if b mod 3 = 1 then sha384_Sum pr E
                                            else sha512_Sum pr E)
                                  in Inr (E, K')))))))"

text \<open>
  The loop \<^verbatim>\<open>for i := 0; ; { E := round(i); b := uint8(E[len(E)-1]); i++;
  if i >= 64 && b <= uint8(i-32) { break } }\<close>.  It returns, with the last \<open>K\<close>, the
  number of rounds run and the last \<open>E\<close>.  \<open>alg2b_measure\<close> counts the rounds that are
  left at most until \<^verbatim>\<open>uint8(i-32)\<close> is 255, where the test cannot fail.
\<close>

definition alg2b_measure :: "int \<Rightarrow> nat" where
  "alg2b_measure i = (if i < 63 then nat (286 - i) else nat ((30 - i) mod 256))"

lemma alg2b_stop:
  assumes "63 \<le> i" and "(30 - i) mod 256 = 0"
  shows "(b :: byte) \<le> word_of_int (i + 1 - 32)"
proof -
  from assms(2) obtain k where "30 - i = 256 * k"
    by (auto simp add: mod_eq_0_iff_dvd)
  then have "i + 1 - 32 = 255 + 256 * (- k - 1)"
    by simp
  then have "(i + 1 - 32) mod 256 = (255 + 256 * (- k - 1)) mod 256"
    by (simp only:)
  also have "\<dots> = 255"
    by (simp only: mod_mult_self2) simp
  finally have "(word_of_int (i + 1 - 32) :: byte) = word_of_int 255"
    by (simp only: word_of_int_eq_iff take_bit_eq_mod) simp
  then have "(word_of_int (i + 1 - 32) :: byte) = - 1"
    by simp
  then show ?thesis
    by (simp only: word_order.extremum)
qed

function alg2b_loop :: "prims \<Rightarrow> bytes \<Rightarrow> bytes \<Rightarrow> int \<Rightarrow> bytes \<Rightarrow> error + (int \<times> bytes \<times> bytes)" where
  "alg2b_loop pr pwd userKey i K =
     (case alg2b_round pr pwd userKey K of
        Inl e \<Rightarrow> Inl e
      | Inr (E, K') \<Rightarrow>
          (let b = last E;
               i' = i + 1
           in if i' \<ge> 64 \<and> b \<le> word_of_int (i' - 32) then Inr (i', E, K')
              else alg2b_loop pr pwd userKey i' K'))"
  by pat_completeness auto
termination
proof (relation "measure (\<lambda>(pr, pwd, userKey, i, K). alg2b_measure i)", goal_cases)
  case 1
  show ?case by simp
next
  case (2 pr pwd userKey i K x2 E K' b i')
  then have go: "\<not> (64 \<le> i + 1 \<and> last E \<le> word_of_int (i + 1 - 32))"
    by simp
  have "alg2b_measure (i + 1) < alg2b_measure i"
  proof (cases "i < 62")
    case True
    then show ?thesis
      by (simp add: alg2b_measure_def)
  next
    case False
    show ?thesis
    proof (cases "i = 62")
      case True
      then show ?thesis
        by (simp add: alg2b_measure_def)
    next
      case False
      with \<open>\<not> i < 62\<close> have i: "63 \<le> i" by simp
      define r where "r = (30 - i) mod 256"
      have r: "0 \<le> r" "r < 256"
        by (simp_all add: r_def)
      from i go alg2b_stop [of i "last E"] have nz: "r \<noteq> 0"
        by (auto simp add: r_def)
      have "(30 - (i + 1)) mod 256 = (30 - i - 1) mod 256"
        by (simp add: algebra_simps)
      also have "\<dots> = (r - 1) mod 256"
        unfolding r_def by (simp add: mod_diff_left_eq)
      also have "\<dots> = r - 1"
        using r nz by (intro mod_pos_pos_trivial) simp_all
      finally have step: "(30 - (i + 1)) mod 256 = r - 1" .
      have "\<not> i + 1 < 63" "\<not> i < 63"
        using i by simp_all
      then have "alg2b_measure (i + 1) = nat ((30 - (i + 1)) mod 256)"
        and m: "alg2b_measure i = nat ((30 - i) mod 256)"
        by (simp_all only: alg2b_measure_def if_False)
      then have m1: "alg2b_measure (i + 1) = nat (r - 1)"
        by (simp only: step)
      show ?thesis
        unfolding m m1 r_def [symmetric] using r nz by simp
    qed
  qed
  with 2 show ?case by simp
qed

declare alg2b_loop.simps [simp del]

definition alg2b :: "prims \<Rightarrow> bytes \<Rightarrow> bytes \<Rightarrow> bytes \<Rightarrow> error + bytes" where
  "alg2b pr data pwd userKey =
     (case alg2b_loop pr pwd userKey 0 (sha256_Sum pr data) of
        Inl e \<Rightarrow> Inl e
      | Inr (i, E, K) \<Rightarrow> slice K 0 32)"


section \<open>Password checks of revisions 5 and 6\<close>

text \<open>
  The method \<^verbatim>\<open>crypt.alg2b\<close> chooses the hash by the revision.  \<^verbatim>\<open>alg11\<close> and
  \<^verbatim>\<open>alg12\<close> return the hash when it equals the first 32 bytes of \<^verbatim>\<open>U\<close> or \<^verbatim>\<open>O\<close>, and
  \<^verbatim>\<open>nil\<close> (the empty list) when it does not; an \<open>Inl\<close> is a panic of a slice
  expression or of \<^verbatim>\<open>alg2b\<close>.
\<close>

definition crypt_alg2b :: "prims \<Rightarrow> PdfCrypt \<Rightarrow> bytes \<Rightarrow> bytes \<Rightarrow> bytes \<Rightarrow> error + bytes" where
  "crypt_alg2b pr crypt data pwd userKey =
     (if crypt_R crypt = 5 then Inr (alg2b_R5 pr data) else alg2b pr data pwd userKey)"

definition alg11 :: "prims \<Rightarrow> PdfCrypt \<Rightarrow> bytes \<Rightarrow> error + bytes" where
  "alg11 pr crypt upass =
     (case slice (crypt_U crypt) 32 40 of
        Inl e \<Rightarrow> Inl e
      | Inr salt \<Rightarrow>
          (case crypt_alg2b pr crypt (upass @ salt) upass [] of
             Inl e \<Rightarrow> Inl e
           | Inr h \<Rightarrow>
               (case slice h 0 32 of
                  Inl e \<Rightarrow> Inl e
                | Inr h \<Rightarrow>
                    (case slice (crypt_U crypt) 0 32 of
                       Inl e \<Rightarrow> Inl e
                     | Inr u \<Rightarrow> if h \<noteq> u then Inr [] else Inr h))))"

definition alg12 :: "prims \<Rightarrow> PdfCrypt \<Rightarrow> bytes \<Rightarrow> error + bytes" where
  "alg12 pr crypt opass =
     (case slice (crypt_O crypt) 32 40 of
        Inl e \<Rightarrow> Inl e
      | Inr salt \<Rightarrow>
          (case slice (crypt_U crypt) 0 48 of
             Inl e \<Rightarrow> Inl e
           | Inr u48 \<Rightarrow>
               (case crypt_alg2b pr crypt (opass @ salt @ u48) opass u48 of
                  Inl e \<Rightarrow> Inl e
                | Inr h \<Rightarrow>
                    (case slice h 0 32 of
                       Inl e \<Rightarrow> Inl e
                     | Inr h \<Rightarrow>
                         (case slice (crypt_O crypt) 0 32 of
                            Inl e \<Rightarrow> Inl e
                          | Inr ohash \<Rightarrow> if h \<noteq> ohash then Inr [] else Inr h)))))"

text \<open>
  Modelled from the spec: \<^verbatim>\<open>newECBDecrypter\<close> is declared in a file that is not part
  of the sources; the spec calls it the ECB-mode wrapper around a block cipher, which
  decrypts every block on its own.
\<close>

definition ECBDecrypt :: "prims \<Rightarrow> bytes \<Rightarrow> bytes \<Rightarrow> error + bytes" where
  "ECBDecrypt pr key src =
     (if length src mod 16 \<noteq> 0 then Inl (Panic ''crypto/cipher: input not full blocks'')
      else Inr (unblocks16 (map (aes_decrypt_block pr key) (blocks16 src))))"

text \<open>
  \<^verbatim>\<open>alg13\<close> decrypts \<^verbatim>\<open>crypt.Perms[:16]\<close> in place, so the first 16 bytes of the
  field \<^verbatim>\<open>Perms\<close> hold the decrypted block afterwards.  \<open>uint32_le\<close> is
  \<^verbatim>\<open>binary.LittleEndian.Uint32\<close>; the bytes of \<^verbatim>\<open>"adb"\<close> are 61 64 62.
\<close>

definition uint32_le :: "bytes \<Rightarrow> 32 word" where
  "uint32_le b = ucast (b ! 0) OR push_bit 8 (ucast (b ! 1)) OR push_bit 16 (ucast (b ! 2))
                 OR push_bit 24 (ucast (b ! 3))"

definition alg13 :: "prims \<Rightarrow> PdfCrypt \<Rightarrow> bytes \<Rightarrow> (error + bool) \<times> PdfCrypt" where
  "alg13 pr crypt fkey =
     (case slice (crypt_Perms crypt) 0 16 of
        Inl e \<Rightarrow> (Inl e, crypt)
      | Inr perms \<Rightarrow>
          (case slice fkey 0 32 of
             Inl e \<Rightarrow> (Inl e, crypt)
           | Inr key \<Rightarrow>
               (case aes_NewCipher key of
                  Inl e \<Rightarrow> (Inl (Panic ''crypto/aes: invalid key size''), crypt)
                | Inr ac \<Rightarrow>
                    (case ECBDecrypt pr ac perms of
                       Inl e \<Rightarrow> (Inl e, crypt)
                     | Inr perms \<Rightarrow>
                         (let crypt = crypt\<lparr>crypt_Perms := perms @ drop 16 (crypt_Perms crypt)\<rparr> in
                          if take 3 (drop 9 perms) \<noteq> [0x61, 0x64, 0x62]
                          then (Inl (ErrMsg ''decoded permissions are invalid''), crypt)
                          else if sint (uint32_le (take 4 perms)) \<noteq> crypt_P crypt
                          then (Inl (ErrMsg ''permissions validation failed''), crypt)
                          else (Inr True, crypt))))))"

text \<open>
  \<^verbatim>\<open>alg2a\<close>.  The field \<^verbatim>\<open>ivAESZero\<close> caches 16 zero bytes and is left out of the
  record; \<^verbatim>\<open>alg11\<close> and \<^verbatim>\<open>alg12\<close> return no error value, so the branches on
  \<^verbatim>\<open>err != nil\<close> are those of a panic.
\<close>

definition alg2a_key :: "prims \<Rightarrow> PdfCrypt \<Rightarrow> bytes \<Rightarrow> bytes \<Rightarrow> bytes \<Rightarrow> bytes
    \<Rightarrow> (error + bool) \<times> PdfCrypt" where
  "alg2a_key pr crypt pass data ekey ukey =
     (case slice ekey 0 32 of
        Inl e \<Rightarrow> (Inl e, crypt)
      | Inr ekey \<Rightarrow>
          (case crypt_alg2b pr crypt data pass ukey of
             Inl e \<Rightarrow> (Inl e, crypt)
           | Inr ikey \<Rightarrow>
               (case slice ikey 0 32 of
                  Inl e \<Rightarrow> (Inl e, crypt)
                | Inr ikey \<Rightarrow>
                    (case aes_NewCipher ikey of
                       Inl e \<Rightarrow> (Inl (Panic ''crypto/aes: invalid key size''), crypt)
                     | Inr ac \<Rightarrow>
                         (case CBCDecrypt pr ac (replicate 16 0) ekey of
                            Inl e \<Rightarrow> (Inl e, crypt)
                          | Inr fkey \<Rightarrow>
                              (let crypt = crypt\<lparr>EncryptionKey := fkey\<rparr> in
                               if crypt_R crypt = 5 then (Inr True, crypt)
                               else alg13 pr crypt fkey))))))"

definition alg2a :: "prims \<Rightarrow> PdfCrypt \<Rightarrow> bytes \<Rightarrow> (error + bool) \<times> PdfCrypt" where
  "alg2a pr crypt pass0 =
     (let pass = (if length pass0 > 127 then take 127 pass0 else pass0) in
      case alg12 pr crypt pass of
        Inl e \<Rightarrow> (Inl e, crypt)
      | Inr h \<Rightarrow>
          if length h \<noteq> 0 then
            (case slice (crypt_O crypt) 40 48 of
               Inl e \<Rightarrow> (Inl e, crypt)
             | Inr osalt \<Rightarrow>
                 (case slice (crypt_U crypt) 0 48 of
                    Inl e \<Rightarrow> (Inl e, crypt)
                  | Inr u48 \<Rightarrow> alg2a_key pr crypt pass (pass @ osalt @ u48) (crypt_OE crypt) u48))
          else
            (case (case alg11 pr crypt pass of
                     Inl e \<Rightarrow> Inl e
                   | Inr h \<Rightarrow> if length h = 0 then alg11 pr crypt [] else Inr h) of
               Inl e \<Rightarrow> (Inl e, crypt)
             | Inr h \<Rightarrow>
                 if length h = 0 then (Inr False, crypt)
                 else
                   (case slice (crypt_U crypt) 40 48 of
                      Inl e \<Rightarrow> (Inl e, crypt)
                    | Inr usalt \<Rightarrow> alg2a_key pr crypt pass (pass @ usalt) (crypt_UE crypt) [])))"


section \<open>Password checks of revisions 2 to 4\<close>

text \<open>
  Go's integer division truncates towards zero (\<^verbatim>\<open>crypt.Length/8\<close>).
\<close>

definition go_div :: "int \<Rightarrow> int \<Rightarrow> int" where
  "go_div a b = sgn a * sgn b * (\<bar>a\<bar> div \<bar>b\<bar>)"

text \<open>
  \<^verbatim>\<open>Alg2\<close>.  \<open>md5_rehash pr n k\<close> is the loop that, \<open>k\<close> times, replaces \<^verbatim>\<open>hashb\<close> by
  the MD5 of \<^verbatim>\<open>hashb[0:n]\<close>.
\<close>

fun md5_rehash :: "prims \<Rightarrow> int \<Rightarrow> nat \<Rightarrow> bytes \<Rightarrow> error + bytes" where
  "md5_rehash pr n 0 hashb = Inr hashb"
| "md5_rehash pr n (Suc k) hashb =
     (case slice hashb 0 n of
        Inl e \<Rightarrow> Inl e
      | Inr x \<Rightarrow> md5_rehash pr n k (md5_Sum pr x))"

definition Alg2 :: "prims \<Rightarrow> PdfCrypt \<Rightarrow> bytes \<Rightarrow> error + bytes" where
  "Alg2 pr crypt pass =
     (let key = paddedPass pass;
          p = (word_of_int (crypt_P crypt) :: 32 word);
          pb = le_bytes 4 p;
          input = key @ crypt_O crypt @ pb @ Id0 crypt
                  @ (if crypt_R crypt \<ge> 4 \<and> \<not> EncryptMetadata crypt then [0xff, 0xff, 0xff, 0xff] else []);
          hashb = md5_Sum pr input
      in case (if crypt_R crypt \<ge> 3 then md5_rehash pr (go_div (crypt_Length crypt) 8) 50 hashb
               else Inr hashb) of
           Inl e \<Rightarrow> Inl e
         | Inr hashb \<Rightarrow>
             if crypt_R crypt \<ge> 3 then slice hashb 0 (go_div (crypt_Length crypt) 8)
             else slice hashb 0 5)"

text \<open>
  \<^verbatim>\<open>alg3Key\<close>: MD5 of the padded password, and for revision 3 and later 50 times the
  MD5 of the digest before.
\<close>

definition alg3Key :: "prims \<Rightarrow> PdfCrypt \<Rightarrow> bytes \<Rightarrow> error + bytes" where
  "alg3Key pr crypt pass =
     (let okey = paddedPass pass;
          encKey = (if crypt_R crypt \<ge> 3 then md5_Sum pr (((md5_Sum pr) ^^ 50) okey)
                    else md5_Sum pr okey)
      in if crypt_R crypt = 2 then slice encKey 0 5
         else slice encKey 0 (go_div (crypt_Length crypt) 8))"

text \<open>
  The loops of \<^verbatim>\<open>Alg3\<close>, \<^verbatim>\<open>Alg5\<close> and \<^verbatim>\<open>Alg7\<close> that apply RC4 again and again with
  the key combined with a counter: \<open>rc4_rounds pr key cs x\<close> applies, for each \<open>c\<close> of
  \<open>cs\<close> in turn, RC4 under the key whose bytes are those of \<open>key\<close> XOR \<open>c\<close>.
\<close>

fun rc4_rounds :: "prims \<Rightarrow> bytes \<Rightarrow> byte list \<Rightarrow> bytes \<Rightarrow> error + bytes" where
  "rc4_rounds pr key [] x = Inr x"
| "rc4_rounds pr key (c # cs) x =
     (case rc4_NewCipher (map (\<lambda>k. k XOR c) key) of
        Inl e \<Rightarrow> Inl e
      | Inr ciph \<Rightarrow> rc4_rounds pr key cs (XORKeyStream pr ciph x))"

definition Alg3 :: "prims \<Rightarrow> PdfCrypt \<Rightarrow> bytes \<Rightarrow> bytes \<Rightarrow> error + bytes" where
  "Alg3 pr crypt upass opass =
     (case (if length opass > 0 then alg3Key pr crypt opass else alg3Key pr crypt upass) of
        Inl e \<Rightarrow> Inl e
      | Inr encKey \<Rightarrow>
          (case rc4_NewCipher encKey of
             Inl e \<Rightarrow> Inl (ErrMsg ''Failed rc4 ciph'')
           | Inr ociph \<Rightarrow>
               (let ukey = paddedPass upass;
                    encrypted = XORKeyStream pr ociph ukey
                in if crypt_R crypt \<ge> 3 then
                     (case rc4_rounds pr encKey (map word_of_nat [1..<20]) encrypted of
                        Inl e \<Rightarrow> Inl (ErrMsg ''Failed rc4 ciph'')
                      | Inr encrypted \<Rightarrow> Inr encrypted)
                   else Inr encrypted)))"

text \<open>\<^verbatim>\<open>Alg4\<close> and \<^verbatim>\<open>Alg5\<close> return the value of U and the document key.\<close>

definition Alg4 :: "prims \<Rightarrow> PdfCrypt \<Rightarrow> bytes \<Rightarrow> error + (bytes \<times> bytes)" where
  "Alg4 pr crypt upass =
     (case Alg2 pr crypt upass of
        Inl e \<Rightarrow> Inl e
      | Inr ekey \<Rightarrow>
          (case rc4_NewCipher ekey of
             Inl e \<Rightarrow> Inl (ErrMsg ''Failed rc4 ciph'')
           | Inr ciph \<Rightarrow> Inr (XORKeyStream pr ciph padding, ekey)))"

definition Alg5 :: "prims \<Rightarrow> PdfCrypt \<Rightarrow> bytes \<Rightarrow> error + (bytes \<times> bytes)" where
  "Alg5 pr crypt upass =
     (case Alg2 pr crypt upass of
        Inl e \<Rightarrow> Inl e
      | Inr ekey \<Rightarrow>
          (let hash = md5_Sum pr (padding @ Id0 crypt) in
           if length hash \<noteq> 16 then Inl (ErrMsg ''Hash length not 16 bytes'')
           else
             (case rc4_NewCipher ekey of
                Inl e \<Rightarrow> Inl (ErrMsg ''Failed rc4 ciph'')
              | Inr ciph \<Rightarrow>
                  (case rc4_rounds pr ekey (map word_of_nat [1..<20]) (XORKeyStream pr ciph hash) of
                     Inl e \<Rightarrow> Inl (ErrMsg ''Failed rc4 ciph'')
                   | Inr encrypted \<Rightarrow> Inr (take 16 encrypted @ rand_read pr 0 16, ekey)))))"

text \<open>
  \<^verbatim>\<open>Alg6\<close> and \<^verbatim>\<open>Alg7\<close>.  A panic is not an error value: \<^verbatim>\<open>Alg7\<close> turns an error
  of \<^verbatim>\<open>Alg6\<close> into the answer false, and a panic stays a panic.
\<close>

definition isPanic :: "error \<Rightarrow> bool" where
  "isPanic e = (case e of Panic s \<Rightarrow> True | _ \<Rightarrow> False)"

definition Alg6 :: "prims \<Rightarrow> PdfCrypt \<Rightarrow> bytes \<Rightarrow> (error + bool) \<times> PdfCrypt" where
  "Alg6 pr crypt upass =
     (case (if crypt_R crypt = 2 then Alg4 pr crypt upass
            else if crypt_R crypt \<ge> 3 then Alg5 pr crypt upass
            else Inl (ErrMsg ''invalid R'')) of
        Inl e \<Rightarrow> (Inl e, crypt)
      | Inr (uo, key) \<Rightarrow>
          (let uGen = (if crypt_R crypt \<ge> 3 \<and> length uo > 16 then take 16 uo else uo);
               uDoc = (if crypt_R crypt \<ge> 3 \<and> length (crypt_U crypt) > 16
                       then take 16 (crypt_U crypt) else crypt_U crypt)
           in if uGen = uDoc then (Inr True, crypt\<lparr>EncryptionKey := key\<rparr>)
              else (Inr False, crypt)))"

definition Alg7 :: "prims \<Rightarrow> PdfCrypt \<Rightarrow> bytes \<Rightarrow> (error + bool) \<times> PdfCrypt" where
  "Alg7 pr crypt opass =
     (case alg3Key pr crypt opass of
        Inl e \<Rightarrow> (Inl e, crypt)
      | Inr encKey \<Rightarrow>
          (case (if crypt_R crypt = 2 then
                   (case rc4_NewCipher encKey of
                      Inl e \<Rightarrow> Inl (ErrMsg ''Failed cipher'')
                    | Inr ciph \<Rightarrow> Inr (XORKeyStream pr ciph (crypt_O crypt)))
                 else if crypt_R crypt \<ge> 3 then
                   (case rc4_rounds pr encKey (map (\<lambda>i. word_of_nat (19 - i)) [0..<20]) (crypt_O crypt) of
                      Inl e \<Rightarrow> Inl (ErrMsg ''Failed cipher'')
                    | Inr decrypted \<Rightarrow> Inr decrypted)
                 else Inl (ErrMsg ''invalid R'')) of
             Inl e \<Rightarrow> (Inl e, crypt)
           | Inr decrypted \<Rightarrow>
               (case Alg6 pr crypt decrypted of
                  (Inl e, crypt) \<Rightarrow> if isPanic e then (Inl e, crypt) else (Inr False, crypt)
                | (Inr auth, crypt) \<Rightarrow> (Inr auth, crypt))))"

section \<open>Authentication and access rights\<close>

definition authenticate :: "prims \<Rightarrow> PdfCrypt \<Rightarrow> bytes \<Rightarrow> (error + bool) \<times> PdfCrypt" where
  "authenticate pr crypt0 password =
     (let crypt = crypt0\<lparr>Authenticated := False\<rparr> in
      if crypt_R crypt \<ge> 5 then
        (case alg2a pr crypt password of
           (Inl e, crypt) \<Rightarrow> (Inl e, crypt)
         | (Inr authenticated, crypt) \<Rightarrow>
             (Inr authenticated, crypt\<lparr>Authenticated := authenticated\<rparr>))
      else
        (case Alg6 pr crypt password of
           (Inl e, crypt) \<Rightarrow> (Inl e, crypt)
         | (Inr True, crypt) \<Rightarrow> (Inr True, crypt\<lparr>Authenticated := True\<rparr>)
         | (Inr False, crypt) \<Rightarrow>
             (case Alg7 pr crypt password of
                (Inl e, crypt) \<Rightarrow> (Inl e, crypt)
              | (Inr True, crypt) \<Rightarrow> (Inr True, crypt\<lparr>Authenticated := True\<rparr>)
              | (Inr False, crypt) \<Rightarrow> (Inr False, crypt))))"

text \<open>
  \<^verbatim>\<open>checkAccessRights\<close> returns a flag, the permissions and an error (\<open>None\<close> for
  \<^verbatim>\<open>nil\<close>); a panic stands in the position of the error as its \<open>Panic\<close> value.
\<close>

definition checkAccessRights :: "prims \<Rightarrow> PdfCrypt \<Rightarrow> bytes
    \<Rightarrow> (bool \<times> AccessPermissions \<times> error option) \<times> PdfCrypt" where
  "checkAccessRights pr crypt0 password =
     (let perms = noPermissions in
      case (if crypt_R crypt0 \<ge> 5 then
              (case alg12 pr crypt0 password of
                 Inl e \<Rightarrow> (Inl e, crypt0)
               | Inr h \<Rightarrow> (Inr (length h \<noteq> 0), crypt0))
            else Alg7 pr crypt0 password) of
        (Inl e, crypt) \<Rightarrow> ((False, perms, Some e), crypt)
      | (Inr True, crypt) \<Rightarrow> ((True, allPermissions, None), crypt)
      | (Inr False, crypt) \<Rightarrow>
          (case (if crypt_R crypt \<ge> 5 then
                   (case alg11 pr crypt password of
                      Inl e \<Rightarrow> (Inl e, crypt)
                    | Inr h \<Rightarrow> (Inr (length h \<noteq> 0), crypt))
                 else Alg6 pr crypt password) of
             (Inl e, crypt) \<Rightarrow> ((False, perms, Some e), crypt)
           | (Inr True, crypt) \<Rightarrow> ((True, GetAccessPermissions crypt, None), crypt)
           | (Inr False, crypt) \<Rightarrow> ((False, perms, None), crypt)))"


text \<open>
  The two checks of \<^verbatim>\<open>checkAccessRights\<close> by themselves: Algorithm 12 or 7 for the
  owner password, Algorithm 11 or 6 for the user password.
\<close>

definition ownerCheck :: "prims \<Rightarrow> PdfCrypt \<Rightarrow> bytes \<Rightarrow> error + bool" where
  "ownerCheck pr crypt password =
     (if crypt_R crypt \<ge> 5 then
        (case alg12 pr crypt password of Inl e \<Rightarrow> Inl e | Inr h \<Rightarrow> Inr (length h \<noteq> 0))
      else fst (Alg7 pr crypt password))"

definition userCheck :: "prims \<Rightarrow> PdfCrypt \<Rightarrow> bytes \<Rightarrow> error + bool" where
  "userCheck pr crypt password =
     (if crypt_R crypt \<ge> 5 then
        (case alg11 pr crypt password of Inl e \<Rightarrow> Inl e | Inr h \<Rightarrow> Inr (length h \<noteq> 0))
      else fst (Alg6 pr crypt password))"


section \<open>The object graph\<close>

text \<open>
  Modelled from the spec: the object model (\<^verbatim>\<open>PdfObject\<close> and its cases, with the
  dictionary operations \<^verbatim>\<open>Get\<close>, \<^verbatim>\<open>Set\<close> and \<^verbatim>\<open>Keys\<close>) is declared in files that are not
  part of the sources; the spec describes it as a variant type with null, boolean,
  integer, real, name, string, array, dictionary, stream and indirect objects, and the
  walker reaches objects through pointers.  An object lives at an address of the store;
  a \<^verbatim>\<open>PdfObject\<close> value is an address, and an address without an object is \<^verbatim>\<open>nil\<close>.
  Two occurrences of one address are the same object.  Booleans, reals and references
  are leaves that the walker passes over, like null: \<open>PdfObjectNull\<close> stands for them.
  A dictionary (in the spec a mapping from name to value, the order of the keys not
  significant) is the list of its keys and values in the order in which \<^verbatim>\<open>Keys\<close>
  returns them; \<^verbatim>\<open>Set\<close> replaces the value of a key that is present and adds a new key
  at the end.
\<close>

type_synonym addr = nat

datatype PdfObject =
    PdfIndirectObject int int addr
  | PdfObjectStream int int addr bytes
  | PdfObjectString bytes
  | PdfObjectArray "addr list"
  | PdfObjectDictionary "(string \<times> addr) list"
  | PdfObjectName string
  | PdfObjectInteger int
  | PdfObjectNull

definition dict_Get :: "(string \<times> addr) list \<Rightarrow> string \<Rightarrow> addr option" where
  "dict_Get kvs key = map_of kvs key"

definition dict_Set :: "(string \<times> addr) list \<Rightarrow> string \<Rightarrow> addr \<Rightarrow> (string \<times> addr) list" where
  "dict_Set kvs key val =
     (if key \<in> set (map fst kvs) then map (\<lambda>(k, v). if k = key then (k, val) else (k, v)) kvs
      else kvs @ [(key, val)])"

definition dict_Keys :: "(string \<times> addr) list \<Rightarrow> string list" where
  "dict_Keys kvs = map fst kvs"

section \<open>Encryption and decryption of bytes\<close>

text \<open>
  \<^verbatim>\<open>decryptBytes\<close> and \<^verbatim>\<open>encryptBytes\<close> return a buffer and an error; the caller for a
  stream stores the buffer whatever the error is.  \<^verbatim>\<open>nil\<close> is the empty list, and an error
  message keeps its constant part.  \<^verbatim>\<open>encryptBytes\<close> reads 16 random bytes (the read
  does not fail); the number of reads so far is passed along.
\<close>

definition decryptBytes :: "prims \<Rightarrow> PdfCrypt \<Rightarrow> bytes \<Rightarrow> string \<Rightarrow> bytes \<Rightarrow> bytes \<times> error option" where
  "decryptBytes pr crypt buf filter' okey =
     (case CryptFilters crypt filter' of
        None \<Rightarrow> ([], Some (ErrMsg ''Unsupported crypt filter''))
      | Some cf \<Rightarrow>
          if Cfm cf = ''V2'' then
            (case rc4_NewCipher okey of
               Inl e \<Rightarrow> ([], Some e)
             | Inr ciph \<Rightarrow> (XORKeyStream pr ciph buf, None))
          else if Cfm cf = ''AESV2'' \<or> Cfm cf = ''AESV3'' then
            (case aes_NewCipher okey of
               Inl e \<Rightarrow> ([], Some e)
             | Inr ciph \<Rightarrow>
                 if length buf < 16 then (buf, Some (ErrMsg ''AES: Buf len < 16''))
                 else
                   (let iv = take 16 buf;
                        buf = drop 16 buf
                    in if length buf mod 16 \<noteq> 0
                       then (buf, Some (ErrMsg ''AES buf length not multiple of 16''))
                       else
                         (case CBCDecrypt pr ciph iv buf of
                            Inl e \<Rightarrow> (buf, Some e)
                          | Inr buf \<Rightarrow>
                              if length buf = 0 then (buf, None)
                              else if Cfm cf = ''AESV2'' then
                                (let padLen = nat (uint (last buf)) in
                                 if padLen \<ge> length buf
                                 then (buf, Some (ErrMsg ''Invalid pad length''))
                                 else (take (length buf - padLen) buf, None))
                              else (buf, None))))
          else ([], Some (ErrMsg ''Unsupported crypt filter method'')))"

definition encryptBytes :: "prims \<Rightarrow> PdfCrypt \<Rightarrow> nat \<Rightarrow> bytes \<Rightarrow> string \<Rightarrow> bytes
    \<Rightarrow> bytes \<times> error option \<times> nat" where
  "encryptBytes pr crypt nreads buf filter' okey =
     (case CryptFilters crypt filter' of
        None \<Rightarrow> ([], Some (ErrMsg ''Unsupported crypt filter''), nreads)
      | Some cf \<Rightarrow>
          if Cfm cf = ''V2'' then
            (case rc4_NewCipher okey of
               Inl e \<Rightarrow> ([], Some e, nreads)
             | Inr ciph \<Rightarrow> (XORKeyStream pr ciph buf, None, nreads))
          else if Cfm cf = ''AESV2'' \<or> Cfm cf = ''AESV3'' then
            (case aes_NewCipher okey of
               Inl e \<Rightarrow> ([], Some e, nreads)
             | Inr ciph \<Rightarrow>
                 (let buf = (if Cfm cf = ''AESV2''
                             then (let pad = 16 - length buf mod 16
                                   in buf @ replicate pad (word_of_nat pad))
                             else buf);
                      iv = rand_read pr nreads 16
                  in case CBCEncrypt pr ciph iv buf of
                       Inl e \<Rightarrow> ([], Some e, Suc nreads)
                     | Inr ciphertext \<Rightarrow> (iv @ ciphertext, None, Suc nreads)))
          else ([], Some (ErrMsg ''Unsupported crypt filter method''), nreads))"

section \<open>The walker (Decrypt and Encrypt)\<close>

text \<open>
  \<^verbatim>\<open>PdfCrypt.Decrypt\<close> and \<^verbatim>\<open>PdfCrypt.Encrypt\<close> are the same function but for three
  names: the map of processed objects (\<^verbatim>\<open>DecryptedObjects\<close> or \<^verbatim>\<open>EncryptedObjects\<close>),
  its test (\<^verbatim>\<open>isDecrypted\<close> or \<^verbatim>\<open>isEncrypted\<close>) and the function applied to the bytes
  (\<^verbatim>\<open>decryptBytes\<close> or \<^verbatim>\<open>encryptBytes\<close>).  The model has one walker with the direction as
  a parameter.

  The state of a walk is the security handler, the store of objects, the next free
  address (for the integer object that \<^verbatim>\<open>MakeInteger\<close> makes), the number of reads of
  the random source, and a history that the code does not have: the list \<open>touched\<close> of
  the indirect objects entered and of the strings and streams whose bytes were given to
  \<^verbatim>\<open>decryptBytes\<close> or \<^verbatim>\<open>encryptBytes\<close>, in the order of the events.
\<close>

datatype walk_mode = Decrypting | Encrypting

datatype event = IndirectEntered addr | StreamBytes addr | StringBytes addr

record walk_state =
  ws_crypt :: PdfCrypt
  heap :: "addr \<rightharpoonup> PdfObject"
  fresh :: addr
  nreads :: nat
  touched :: "event list"

definition processed :: "walk_mode \<Rightarrow> walk_state \<Rightarrow> addr set" where
  "processed m s =
     (case m of Decrypting \<Rightarrow> DecryptedObjects (ws_crypt s)
              | Encrypting \<Rightarrow> EncryptedObjects (ws_crypt s))"

definition mark :: "walk_mode \<Rightarrow> addr \<Rightarrow> walk_state \<Rightarrow> walk_state" where
  "mark m a s =
     (case m of
        Decrypting \<Rightarrow>
          s\<lparr>ws_crypt := (ws_crypt s)\<lparr>DecryptedObjects := insert a (DecryptedObjects (ws_crypt s))\<rparr>\<rparr>
      | Encrypting \<Rightarrow>
          s\<lparr>ws_crypt := (ws_crypt s)\<lparr>EncryptedObjects := insert a (EncryptedObjects (ws_crypt s))\<rparr>\<rparr>)"

definition cryptBytes :: "prims \<Rightarrow> walk_mode \<Rightarrow> PdfCrypt \<Rightarrow> nat \<Rightarrow> bytes \<Rightarrow> string \<Rightarrow> bytes
    \<Rightarrow> bytes \<times> error option \<times> nat" where
  "cryptBytes pr m crypt n buf filter' okey =
     (case m of
        Decrypting \<Rightarrow> (case decryptBytes pr crypt buf filter' okey of (out, err) \<Rightarrow> (out, err, n))
      | Encrypting \<Rightarrow> encryptBytes pr crypt n buf filter' okey)"

text \<open>
  The choice of the crypt filter of a stream, from the dictionary of the stream.
  Taking the first element of an empty array of filters panics, and a stream without a
  dictionary is a nil pointer.
\<close>

definition streamFilterOf :: "walk_state \<Rightarrow> addr \<Rightarrow> error + string" where
  "streamFilterOf s dict =
     (case heap s dict of
        Some (PdfObjectDictionary kvs) \<Rightarrow>
          if crypt_V (ws_crypt s) \<ge> 4 then
            (case (case dict_Get kvs ''Filter'' of None \<Rightarrow> None | Some f \<Rightarrow> heap s f) of
               Some (PdfObjectArray filters) \<Rightarrow>
                 (case filters of
                    [] \<Rightarrow> Inl (Panic ''index out of range'')
                  | first # _ \<Rightarrow>
                      (case heap s first of
                         Some (PdfObjectName firstFilter) \<Rightarrow>
                           if firstFilter = ''Crypt'' then
                             (case (case dict_Get kvs ''DecodeParms'' of None \<Rightarrow> None | Some d \<Rightarrow> heap s d) of
                                Some (PdfObjectDictionary decodeParams) \<Rightarrow>
                                  (case (case dict_Get decodeParams ''Name'' of None \<Rightarrow> None | Some n \<Rightarrow> heap s n) of
                                     Some (PdfObjectName filterName) \<Rightarrow>
                                       if filterName \<in> dom (CryptFilters (ws_crypt s)) then Inr filterName
                                       else Inr ''Identity''
                                   | _ \<Rightarrow> Inr ''Identity'')
                              | _ \<Rightarrow> Inr ''Identity'')
                           else Inr (StreamFilter (ws_crypt s))
                       | _ \<Rightarrow> Inr (StreamFilter (ws_crypt s))))
             | _ \<Rightarrow> Inr (StreamFilter (ws_crypt s)))
          else Inr ''Default''
      | _ \<Rightarrow> Inl (Panic ''nil pointer dereference''))"

text \<open>
  \<^verbatim>\<open>dict.Set\<close> of the key \<^verbatim>\<open>Length\<close> to a new integer object \<open>n\<close>, on the dictionary at
  address \<open>dict\<close>.
\<close>

definition setLength :: "walk_state \<Rightarrow> addr \<Rightarrow> nat \<Rightarrow> walk_state" where
  "setLength s dict n =
     (let a = fresh s;
          h = (heap s)(a \<mapsto> PdfObjectInteger (int n))
      in case h dict of
           Some (PdfObjectDictionary kvs) \<Rightarrow>
             s\<lparr>heap := h(dict \<mapsto> PdfObjectDictionary (dict_Set kvs ''Length'' a)), fresh := Suc a\<rparr>
         | _ \<Rightarrow> s\<lparr>heap := h, fresh := Suc a\<rparr>)"

text \<open>
  The end of the case of a stream, after the walk through its dictionary: the key of
  the object, the bytes, the length.
\<close>

definition walkStreamBytes :: "prims \<Rightarrow> walk_mode \<Rightarrow> walk_state \<Rightarrow> addr \<Rightarrow> addr \<Rightarrow> string
    \<Rightarrow> int \<Rightarrow> int \<Rightarrow> walk_state \<times> error option" where
  "walkStreamBytes pr m s so dict streamFilter objNum genNum =
     (case makeKey pr (ws_crypt s) streamFilter (word_of_int objNum) (word_of_int genNum)
             (EncryptionKey (ws_crypt s)) of
        Inl e \<Rightarrow> (s, Some e)
      | Inr okey \<Rightarrow>
          (case heap s so of
             Some (PdfObjectStream on gn d stream) \<Rightarrow>
               (case cryptBytes pr m (ws_crypt s) (nreads s) stream streamFilter okey of
                  (out, err, n) \<Rightarrow>
                    (let s1 = s\<lparr>heap := (heap s)(so \<mapsto> PdfObjectStream on gn d out), nreads := n,
                                 touched := touched s @ [StreamBytes so]\<rparr>
                     in case err of
                          Some e \<Rightarrow> (s1, Some e)
                        | None \<Rightarrow> (setLength s1 dict (length out), None)))
           | _ \<Rightarrow> (s, Some (Panic ''nil pointer dereference''))))"

text \<open>The case of a string: the key comes from the numbers of the enclosing object.\<close>

definition walkString :: "prims \<Rightarrow> walk_mode \<Rightarrow> walk_state \<Rightarrow> addr \<Rightarrow> bytes \<Rightarrow> int \<Rightarrow> int
    \<Rightarrow> walk_state \<times> error option" where
  "walkString pr m s obj str parentObjNum parentGenNum =
     (if crypt_V (ws_crypt s) \<ge> 4 \<and> StringFilter (ws_crypt s) = ''Identity'' then (s, None)
      else
        (let stringFilter = (if crypt_V (ws_crypt s) \<ge> 4 then StringFilter (ws_crypt s) else ''Default'') in
         case makeKey pr (ws_crypt s) stringFilter (word_of_int parentObjNum) (word_of_int parentGenNum)
                (EncryptionKey (ws_crypt s)) of
           Inl e \<Rightarrow> (s, Some e)
         | Inr key \<Rightarrow>
             (case cryptBytes pr m (ws_crypt s) (nreads s) str stringFilter key of
                (out, err, n) \<Rightarrow>
                  (let s1 = s\<lparr>nreads := n, touched := touched s @ [StringBytes obj]\<rparr>
                   in case err of
                        Some e \<Rightarrow> (s1, Some e)
                      | None \<Rightarrow> (s1\<lparr>heap := (heap s1)(obj \<mapsto> PdfObjectString out)\<rparr>, None)))))"

text \<open>Whether a dictionary has \<^verbatim>\<open>Type\<close> equal to the name \<^verbatim>\<open>Sig\<close>.\<close>

definition isSigDict :: "walk_state \<Rightarrow> (string \<times> addr) list \<Rightarrow> bool" where
  "isSigDict s kvs =
     (case dict_Get kvs ''Type'' of
        None \<Rightarrow> False
      | Some t \<Rightarrow> (case heap s t of Some (PdfObjectName typeStr) \<Rightarrow> typeStr = ''Sig'' | _ \<Rightarrow> False))"

text \<open>
  The walker.  Its recursion is as deep as the object graph, and without end on a cycle
  of arrays and dictionaries, where the Go program dies of a stack overflow: \<open>depth\<close>
  is the depth that the stack allows, and the walk stops with that panic when it is
  used up.  \<open>walkArray\<close> is the loop over the elements of an array, \<open>walkDict\<close> the loop
  over the keys of the dictionary at address \<open>d\<close> (the keys as they were when the loop
  began, each value as it is when its turn comes).
\<close>

function (sequential) walk :: "prims \<Rightarrow> walk_mode \<Rightarrow> nat \<Rightarrow> walk_state \<Rightarrow> addr \<Rightarrow> int \<Rightarrow> int
    \<Rightarrow> walk_state \<times> error option"
and walkArray :: "prims \<Rightarrow> walk_mode \<Rightarrow> nat \<Rightarrow> walk_state \<Rightarrow> addr list \<Rightarrow> int \<Rightarrow> int
    \<Rightarrow> walk_state \<times> error option"
and walkDict :: "prims \<Rightarrow> walk_mode \<Rightarrow> nat \<Rightarrow> walk_state \<Rightarrow> addr \<Rightarrow> bool \<Rightarrow> string list \<Rightarrow> int \<Rightarrow> int
    \<Rightarrow> walk_state \<times> error option"
where
  "walk pr m 0 s obj parentObjNum parentGenNum = (s, Some (Panic ''stack overflow''))"
| "walk pr m (Suc depth) s obj parentObjNum parentGenNum =
     (if obj \<in> processed m s then (s, None)
      else
        (case heap s obj of
           Some (PdfIndirectObject objNum genNum inner) \<Rightarrow>
             walk pr m depth ((mark m obj s)\<lparr>touched := touched s @ [IndirectEntered obj]\<rparr>)
               inner objNum genNum
         | Some (PdfObjectStream objNum genNum dict stream) \<Rightarrow>
             (let s1 = mark m obj s in
              case streamFilterOf s1 dict of
                Inl e \<Rightarrow> (s1, Some e)
              | Inr streamFilter \<Rightarrow>
                  if crypt_V (ws_crypt s1) \<ge> 4 \<and> streamFilter = ''Identity'' then (s1, None)
                  else
                    (case walk pr m depth s1 dict objNum genNum of
                       (s2, Some e) \<Rightarrow> (s2, Some e)
                     | (s2, None) \<Rightarrow> walkStreamBytes pr m s2 obj dict streamFilter objNum genNum))
         | Some (PdfObjectString str) \<Rightarrow> walkString pr m s obj str parentObjNum parentGenNum
         | Some (PdfObjectArray a) \<Rightarrow> walkArray pr m depth s a parentObjNum parentGenNum
         | Some (PdfObjectDictionary kvs) \<Rightarrow>
             walkDict pr m depth s obj (isSigDict s kvs) (dict_Keys kvs) parentObjNum parentGenNum
         | _ \<Rightarrow> (s, None)))"
| "walkArray pr m depth s [] parentObjNum parentGenNum = (s, None)"
| "walkArray pr m depth s (x # xs) parentObjNum parentGenNum =
     (case walk pr m depth s x parentObjNum parentGenNum of
        (s', Some e) \<Rightarrow> (s', Some e)
      | (s', None) \<Rightarrow> walkArray pr m depth s' xs parentObjNum parentGenNum)"
| "walkDict pr m depth s d isSig [] parentObjNum parentGenNum = (s, None)"
| "walkDict pr m depth s d isSig (keyidx # keys) parentObjNum parentGenNum =
     (if isSig \<and> keyidx = ''Contents'' then
        walkDict pr m depth s d isSig keys parentObjNum parentGenNum
      else if keyidx \<noteq> ''Parent'' \<and> keyidx \<noteq> ''Prev'' \<and> keyidx \<noteq> ''Last'' then
        (case (case heap s d of
                 Some (PdfObjectDictionary kvs) \<Rightarrow> dict_Get kvs keyidx
               | _ \<Rightarrow> None) of
           None \<Rightarrow> walkDict pr m depth s d isSig keys parentObjNum parentGenNum
         | Some x \<Rightarrow>
             (case walk pr m depth s x parentObjNum parentGenNum of
                (s', Some e) \<Rightarrow> (s', Some e)
              | (s', None) \<Rightarrow> walkDict pr m depth s' d isSig keys parentObjNum parentGenNum))
      else walkDict pr m depth s d isSig keys parentObjNum parentGenNum)"
  by pat_completeness auto

termination
  by (relation "inv_image (less_than <*lex*> less_than)
        (\<lambda>x. case x of
           Inl (pr, m, depth, r) \<Rightarrow> (depth, 0)
         | Inr (Inl (pr, m, depth, s, xs, r)) \<Rightarrow> (depth, Suc (length xs))
         | Inr (Inr (pr, m, depth, s, d, isSig, keys, r)) \<Rightarrow> (depth, Suc (length keys)))")
     auto

definition Decrypt :: "prims \<Rightarrow> nat \<Rightarrow> walk_state \<Rightarrow> addr \<Rightarrow> int \<Rightarrow> int \<Rightarrow> walk_state \<times> error option" where
  "Decrypt pr depth s obj parentObjNum parentGenNum =
     walk pr Decrypting depth s obj parentObjNum parentGenNum"

definition Encrypt :: "prims \<Rightarrow> nat \<Rightarrow> walk_state \<Rightarrow> addr \<Rightarrow> int \<Rightarrow> int \<Rightarrow> walk_state \<times> error option" where
  "Encrypt pr depth s obj parentObjNum parentGenNum =
     walk pr Encrypting depth s obj parentObjNum parentGenNum"

text \<open>
  The relation between the state before and the state after a part of a walk, for an
  address \<open>a\<close> and an event \<open>e\<close> of \<open>a\<close>: the set of processed objects grows; if \<open>a\<close> was
  processed before, \<open>e\<close> does not happen; and \<open>e\<close> happens at most once, and only if \<open>a\<close> is
  processed after.
\<close>

definition guarded :: "walk_mode \<Rightarrow> addr \<Rightarrow> event \<Rightarrow> walk_state \<Rightarrow> walk_state \<Rightarrow> bool" where
  "guarded m a e s s' \<longleftrightarrow>
     processed m s \<subseteq> processed m s'
     \<and> (a \<in> processed m s \<longrightarrow> count_list (touched s') e = count_list (touched s) e)
     \<and> (count_list (touched s') e = count_list (touched s) e
        \<or> count_list (touched s') e = Suc (count_list (touched s) e) \<and> a \<in> processed m s')"

section \<open>Instances for evaluation\<close>

text \<open>
  \<^verbatim>\<open>PdfCrypt{}\<close>, the zero value from which \<^verbatim>\<open>PdfCryptMakeNew\<close> starts: numbers 0,
  strings and slices empty, maps without entries.
\<close>

definition PdfCrypt_zero :: PdfCrypt where
  "PdfCrypt_zero =
     \<lparr>crypt_V = 0, crypt_Length = 0, crypt_R = 0, crypt_O = [], crypt_U = [], crypt_OE = [],
      crypt_UE = [], crypt_P = 0, crypt_Perms = [], EncryptMetadata = False, Id0 = [],
      EncryptionKey = [], DecryptedObjects = {}, EncryptedObjects = {}, Authenticated = False,
      CryptFilters = Map.empty, StreamFilter = [], StringFilter = []\<rparr>"

text \<open>
  A small instance of the cryptographic libraries, used where a statement is evaluated
  at a concrete input: a digest is a polynomial in the bytes of the data (so that it
  depends on every byte), the RC4 key stream repeats the key, the AES block functions
  add the key to the block, and the random source returns zero bytes.
\<close>

definition toy_digest :: "bytes \<Rightarrow> 'a::len word" where
  "toy_digest d = foldl (\<lambda>w b. 31 * w + ucast b) 7 d"

definition toy_prims :: prims where
  "toy_prims =
     \<lparr>md5_digest = toy_digest, sha256_digest = toy_digest, sha384_digest = toy_digest,
      sha512_digest = toy_digest,
      rc4_keystream = (\<lambda>key i. if key = [] then 0 else key ! (i mod length key)),
      aes_encrypt_block = (\<lambda>key b. b XOR bytes_word key),
      aes_decrypt_block = (\<lambda>key b. b XOR bytes_word key),
      rand_read = (\<lambda>k n. replicate n 0)\<rparr>"

text \<open>
  Three documents under \<open>toy_prims\<close>.  \<open>doc_two_passwords\<close> is a document of
  revision 2 with the user password "user" and the owner password "owner": its O and U are
  the results of \<^verbatim>\<open>Alg3\<close> and \<^verbatim>\<open>Alg4\<close>.  \<open>doc_no_owner_password\<close> is a document of
  revision 2 with the empty user password and no owner password.  \<open>doc_r5\<close> is a document
  of revision 5 with the empty user password, the owner password "owner" and the file key
  A0 A1 ... BF.  In all three P = -3904 grants no permission.
\<close>

definition doc_two_passwords :: PdfCrypt where
  "doc_two_passwords =
     PdfCrypt_zero\<lparr>crypt_V := 1, crypt_Length := 40, crypt_R := 2, crypt_P := - 3904,
       EncryptMetadata := True, Id0 := [1, 2, 3, 4],
       CryptFilters := [''Default'' \<mapsto> \<lparr>Cfm = ''V2'', cf_Length = 40\<rparr>],
       crypt_O := [10, 38, 40, 138, 37, 192, 27, 19, 182, 120, 245, 20, 41, 248, 67, 41,
                   170, 183, 249, 5, 81, 123, 77, 78, 221, 23, 107, 205, 215, 1, 214, 171],
       crypt_U := [56, 254, 46, 8, 245, 101, 203, 33, 50, 187, 94, 23, 159, 172, 186,
                   24, 111, 78, 86, 13, 192, 41, 94, 214, 148, 28, 232, 158, 50, 232,
                   121, 59]\<rparr>"

definition doc_no_owner_password :: PdfCrypt where
  "doc_no_owner_password =
     PdfCrypt_zero\<lparr>crypt_V := 1, crypt_Length := 40, crypt_R := 2, crypt_P := - 3904,
       EncryptMetadata := True, Id0 := [1, 2, 3, 4],
       CryptFilters := [''Default'' \<mapsto> \<lparr>Cfm = ''V2'', cf_Length = 40\<rparr>],
       crypt_O := [124, 201, 202, 9, 142, 33, 252, 197, 51, 192, 26, 32, 123, 173, 193,
                   92, 88, 170, 87, 118, 132, 30, 186, 215, 239, 88, 223, 122, 51, 147,
                   61, 12],
       crypt_U := [63, 65, 58, 51, 65, 98, 116, 53, 9, 15, 89, 168, 139, 151, 14, 31,
                   208, 90, 109, 185, 199, 150, 74, 237, 32, 27, 87, 138, 9, 92, 126,
                   132]\<rparr>"

definition doc_r5 :: PdfCrypt where
  "doc_r5 =
     PdfCrypt_zero\<lparr>crypt_V := 5, crypt_Length := 256, crypt_R := 5, crypt_P := - 3904,
       EncryptMetadata := True, Id0 := [1, 2, 3, 4],
       CryptFilters := [''StdCF'' \<mapsto> \<lparr>Cfm = ''AESV3'', cf_Length = 32\<rparr>],
       StreamFilter := ''StdCF'', StringFilter := ''StdCF'',
       crypt_O := [29, 18, 25, 115, 25, 197, 230, 157, 15, 16, 13, 49, 141, 74, 106, 104,
                   163, 118, 1, 62, 50, 0, 30, 167, 79, 95, 42, 167, 98, 67, 34, 34,
                   21, 22, 23, 24, 25, 26, 27, 28, 29, 30, 31, 32, 33, 34, 35, 36],
       crypt_U := [0, 0, 0, 0, 0, 0, 0, 0, 0, 0, 0, 0, 0, 0, 0, 0, 0, 0, 0, 0, 0, 0, 0, 0,
                   0, 0, 5, 116, 228, 229, 241, 139,
                   1, 2, 3, 4, 5, 6, 7, 8, 9, 10, 11, 12, 13, 14, 15, 16],
       crypt_OE := [60, 0, 93, 199, 178, 158, 221, 209, 202, 33, 107, 10, 170, 172, 8, 141,
                    16, 16, 16, 16, 16, 16, 16, 16, 16, 16, 16, 16, 16, 16, 16, 16],
       crypt_UE := [160, 161, 162, 163, 164, 165, 166, 167, 168, 169, 175, 2, 117, 145, 219,
                    36, 16, 16, 16, 16, 16, 16, 16, 16, 16, 16, 16, 16, 16, 16, 16, 16]\<rparr>"


section \<open>Encoding followed by decoding\<close>

text \<open>
  \<open>roundtrip enc dec X\<close> is \<^verbatim>\<open>C.DecodeBytes(C.EncodeBytes(X))\<close>: the error of the
  encoder if it fails, else what the decoder makes of the encoder's output.  \<open>ascii\<close>
  is the byte sequence of an ASCII text.
\<close>

definition roundtrip :: "(bytes \<Rightarrow> error + bytes) \<Rightarrow> (bytes \<Rightarrow> error + bytes) \<Rightarrow> bytes \<Rightarrow> error + bytes" where
  "roundtrip enc dec X = (case enc X of Inl e \<Rightarrow> Inl e | Inr Y \<Rightarrow> dec Y)"

definition ascii :: "string \<Rightarrow> bytes" where
  "ascii s = map of_char s"

text \<open>
  Two object graphs in the document \<open>doc_two_passwords\<close>, opened with the user password.
  In the first, the dictionaries of the indirect objects 10 and 20 hold the same string
  object (address 1), and an array holds 10, 20 and 10 again.  In the second, an array
  holds the same stream (address 40) twice.
\<close>

definition opened_doc :: PdfCrypt where
  "opened_doc = snd (authenticate toy_prims doc_two_passwords (ascii ''user''))"

definition shared_string_state :: walk_state where
  "shared_string_state =
     \<lparr>ws_crypt = opened_doc,
      heap = [1 \<mapsto> PdfObjectString (ascii ''Annual report''),
              11 \<mapsto> PdfObjectDictionary [(''Title'', 1)],
              10 \<mapsto> PdfIndirectObject 10 0 11,
              21 \<mapsto> PdfObjectDictionary [(''Title'', 1)],
              20 \<mapsto> PdfIndirectObject 20 0 21,
              30 \<mapsto> PdfObjectArray [10, 20, 10]],
      fresh = 31, nreads = 0, touched = []\<rparr>"

definition shared_stream_state :: walk_state where
  "shared_stream_state =
     \<lparr>ws_crypt = opened_doc,
      heap = [42 \<mapsto> PdfObjectInteger 13,
              41 \<mapsto> PdfObjectDictionary [(''Length'', 42)],
              40 \<mapsto> PdfObjectStream 40 0 41 (ascii ''Annual report''),
              50 \<mapsto> PdfObjectArray [40, 40]],
      fresh = 51, nreads = 0, touched = []\<rparr>"

section \<open>Properties of the simple codecs\<close>

text \<open>
  Claim C1 (round trip of the codecs Raw, RunLength, ASCIIHex, ASCII85) fails on the
  code.  The ASCII-85 encoder writes \<^verbatim>\<open>z\<close> for every group whose value is zero, also
  for a last group of fewer than four bytes, and the decoder turns each \<^verbatim>\<open>z\<close> into
  four zero bytes: the single byte 00 comes back as four bytes.
\<close>

theorem C1_ascii85_roundtrip_fails:
  "roundtrip ASCII85_EncodeBytes ASCII85_DecodeBytes [0x00] = Inr [0x00, 0x00, 0x00, 0x00]"
  by code_simp

text \<open>
  The run-length encoder returns the empty output for the empty input, without the
  end-of-data byte 128, and the decoder reports \<^verbatim>\<open>io.EOF\<close> on it.
\<close>

lemma runlength_roundtrip_empty:
  "roundtrip RunLength_EncodeBytes RunLength_DecodeBytes [] = Inl EOF"
  by code_simp

text \<open>
  Claim C7, as stated: run-length decoding of 05 48 65 6C 6C 6F 20 FE 21 80 yields the
  text "Hello !!".  The code yields one more exclamation mark: the length byte FE = 254
  stands for 257 - 254 = 3 copies.
\<close>

theorem C7_runlength_hello_counterexample:
  "RunLength_DecodeBytes [0x05, 0x48, 0x65, 0x6C, 0x6C, 0x6F, 0x20, 0xFE, 0x21, 0x80]
     \<noteq> Inr (ascii ''Hello !!'')"
  by code_simp

text \<open>
  Claim C7, amended: run-length decoding of 05 48 65 6C 6C 6F 20 FE 21 80 succeeds and
  yields the nine bytes of "Hello !!!": the literal "Hello " of 5 + 1 bytes, then
  257 - 254 = 3 copies of the exclamation mark, then the end-of-data byte 80.
\<close>

theorem C7_runlength_hello:
  "RunLength_DecodeBytes [0x05, 0x48, 0x65, 0x6C, 0x6C, 0x6F, 0x20, 0xFE, 0x21, 0x80]
     = Inr (ascii ''Hello !!!'')"
  by code_simp


section \<open>Properties of the LZW encoder\<close>





section \<open>Properties of the access permissions\<close>

lemma and_push_bit_pos_iff: "(P :: int) AND push_bit k 1 > 0 \<longleftrightarrow> bit P k"
proof -
  have "P AND 2 ^ k \<ge> 0"
    by simp
  moreover have "P AND 2 ^ k = 0 \<longleftrightarrow> \<not> bit P k"
    by (rule and_exp_eq_0_iff_not_bit)
  ultimately show ?thesis
    by (auto simp add: push_bit_of_1 less_le)
qed

lemma GetAccessPermissions_bits:
  "GetAccessPermissions crypt =
     \<lparr>Printing = bit (crypt_P crypt) 2, Modify = bit (crypt_P crypt) 3,
      ExtractGraphics = bit (crypt_P crypt) 4, Annotate = bit (crypt_P crypt) 5,
      FillForms = bit (crypt_P crypt) 8, DisabilityExtract = bit (crypt_P crypt) 9,
      RotateInsert = bit (crypt_P crypt) 10, FullPrintQuality = bit (crypt_P crypt) 11\<rparr>"
  unfolding GetAccessPermissions_def Let_def and_push_bit_pos_iff noPermissions_def
  by simp

text \<open>
  Claim C8, as stated, says that a document with P = -4 has Printing = false and
  Modify = false.  In -4 the two lowest bits are clear and every other bit is set, so
  bit 3 (value 4) and bit 4 (value 8) are set: both fields are true.
\<close>

theorem C8_permissions_counterexample:
  "Printing (GetAccessPermissions (PdfCrypt_zero\<lparr>crypt_P := - 4\<rparr>))
   \<and> Modify (GetAccessPermissions (PdfCrypt_zero\<lparr>crypt_P := - 4\<rparr>))"
  by (simp add: GetAccessPermissions_bits PdfCrypt_zero_def bit_minus_numeral_int)

text \<open>
  Claim C8, amended: each field is decoded from P at a fixed bit position, counting the
  lowest bit as bit 1: 3 = Printing, 4 = Modify, 5 = ExtractGraphics, 6 = Annotate,
  9 = FillForms, 10 = DisabilityExtract, 11 = RotateInsert, 12 = FullPrintQuality
  (\<open>bit P k\<close> counts from 0).  For P = -4 all eight fields are true.
\<close>

theorem C8_permissions:
  "GetAccessPermissions crypt =
     \<lparr>Printing = bit (crypt_P crypt) 2, Modify = bit (crypt_P crypt) 3,
      ExtractGraphics = bit (crypt_P crypt) 4, Annotate = bit (crypt_P crypt) 5,
      FillForms = bit (crypt_P crypt) 8, DisabilityExtract = bit (crypt_P crypt) 9,
      RotateInsert = bit (crypt_P crypt) 10, FullPrintQuality = bit (crypt_P crypt) 11\<rparr>
   \<and> (crypt_P crypt = - 4 \<longrightarrow> GetAccessPermissions crypt = allPermissions)"
  by (simp add: GetAccessPermissions_bits allPermissions_def bit_minus_numeral_int)

theorem C8_permissions_witness:
  "crypt_P (PdfCrypt_zero\<lparr>crypt_P := - 4\<rparr>) = - 4
   \<and> GetAccessPermissions (PdfCrypt_zero\<lparr>crypt_P := - 4\<rparr>) = allPermissions"
  using C8_permissions [of "PdfCrypt_zero\<lparr>crypt_P := - 4\<rparr>"]
  by (simp add: allPermissions_def)

section \<open>Properties of the per-object key\<close>

lemma length_word_bytes [simp]: "length (word_bytes n w) = n"
  by (simp add: word_bytes_def)

lemma length_md5_Sum [simp]: "length (md5_Sum pr d) = 16"
  by (simp add: md5_Sum_def)

lemma ucast_and_255: "(ucast ((x :: 32 word) AND 0xff) :: byte) = ucast x"
proof -
  have "x AND 0xff = take_bit 8 x"
    by (simp add: take_bit_eq_mask mask_eq_exp_minus_1)
  moreover have "(ucast (take_bit 8 x) :: byte) = ucast x"
    by (rule bit_word_eqI) (simp add: bit_simps)
  ultimately show ?thesis
    by simp
qed

lemma upt_3: "[0..<3] = [0, 1, 2]"
  by code_simp

lemma upt_2: "[0..<2] = [0, 1]"
  by code_simp

lemma le_bytes_3: "le_bytes 3 x = [ucast x, ucast (drop_bit 8 x), ucast (drop_bit 16 x)]"
  by (simp add: le_bytes_def ucast_and_255 upt_3 del: upt.simps)

lemma le_bytes_2: "le_bytes 2 x = [ucast x, ucast (drop_bit 8 x)]"
  by (simp add: le_bytes_def ucast_and_255 upt_2 del: upt.simps)

text \<open>
  Claim C3, as stated, says that the key of an AESV2 object is the full digest of 16
  bytes.  The code cuts the digest to \<open>length ekey + 5\<close> bytes whenever that is less
  than 16, for AESV2 as for V2: with a document key of 5 bytes the key has 10 bytes.
\<close>

theorem C3_makeKey_counterexample:
  "map_sum id length
     (makeKey toy_prims
        (PdfCrypt_zero\<lparr>CryptFilters := [''StdCF'' \<mapsto> \<lparr>Cfm = ''AESV2'', cf_Length = 16\<rparr>]\<rparr>)
        ''StdCF'' 7 0 [0x00, 0x01, 0x02, 0x03, 0x04])
   = Inr 10"
  by (simp add: makeKey_def PdfCrypt_zero_def slice_def)

text \<open>
  Claim C3, amended: for every document key, object number and generation number, and
  every crypt filter of the registry whose method is not AESV3 (V2 and AESV2 among them),
  the key of the object is MD5 of the document key followed by the 3 low-order bytes of
  objNum and the 2 low-order bytes of genNum, lowest first, and by "sAlT" exactly when
  the method is AESV2, cut to min(length of the document key + 5, 16) bytes for V2 and
  AESV2 alike; for AESV3 the document key is returned unchanged.  For V2, document key
  00 01 02 03 04, objNum = 7 and genNum = 0 it is the first 10 bytes of
  MD5(00 01 02 03 04 07 00 00 00 00).
\<close>

theorem C3_makeKey:
  "CryptFilters crypt f = Some cf \<Longrightarrow>
     makeKey pr crypt f objNum genNum ekey =
       (if Cfm cf = ''AESV3'' then Inr ekey
        else Inr (take (min (length ekey + 5) 16)
               (md5_Sum pr (ekey @ [ucast objNum, ucast (drop_bit 8 objNum), ucast (drop_bit 16 objNum)]
                                 @ [ucast genNum, ucast (drop_bit 8 genNum)]
                                 @ (if Cfm cf = ''AESV2'' then [0x73, 0x41, 0x6C, 0x54] else [])))))
     \<and> (Cfm cf = ''V2'' \<longrightarrow>
          makeKey pr crypt f 7 0 [0x00, 0x01, 0x02, 0x03, 0x04] =
            Inr (take 10 (md5_Sum pr [0x00, 0x01, 0x02, 0x03, 0x04, 0x07, 0x00, 0x00, 0x00, 0x00])))"
  by (simp add: makeKey_def slice_def le_bytes_3 le_bytes_2 Let_def min_def nat_add_distrib)

theorem C3_makeKey_witness:
  "makeKey toy_prims
     (PdfCrypt_zero\<lparr>CryptFilters := [''Default'' \<mapsto> \<lparr>Cfm = ''V2'', cf_Length = 40\<rparr>]\<rparr>)
     ''Default'' 7 0 [0x00, 0x01, 0x02, 0x03, 0x04]
   = Inr (take 10 (md5_Sum toy_prims [0x00, 0x01, 0x02, 0x03, 0x04, 0x07, 0x00, 0x00, 0x00, 0x00]))"
  using C3_makeKey [of "PdfCrypt_zero\<lparr>CryptFilters := [''Default'' \<mapsto> \<lparr>Cfm = ''V2'', cf_Length = 40\<rparr>]\<rparr>"
      "''Default''" "\<lparr>Cfm = ''V2'', cf_Length = 40\<rparr>" toy_prims 7 0 "[0x00, 0x01, 0x02, 0x03, 0x04]"]
  by simp


section \<open>Properties of the predictors\<close>

lemma chunks_Nil [simp]: "chunks n [] = []"
  by (subst chunks.simps) auto







lemma length_png_sub_encode_row [simp]:
  "length (png_sub_encode_row n row) = (if n = 0 then 2 else Suc n)"
  by (auto simp add: png_sub_encode_row_def)


lemma length_foldl_update [simp]:
  "length (foldl (\<lambda>row j. row[j := g row j]) e js) = length e"
  by (induction js arbitrary: e) simp_all














section \<open>Properties of Algorithm 2.B\<close>

lemma length_blocks16: "length (blocks16 bs) = length bs div 16"
proof (induction bs rule: blocks16.induct)
  case (1 bs)
  show ?case
  proof (cases "length bs < 16")
    case True
    then show ?thesis by (subst blocks16.simps) simp
  next
    case False
    with "1.IH" have "length (blocks16 (drop 16 bs)) = (length bs - 16) div 16"
      by simp
    with False show ?thesis
      by (subst blocks16.simps) (simp add: le_div_geq)
  qed
qed

lemma length_cbc_encrypt_blocks [simp]: "length (cbc_encrypt_blocks f iv ps) = length ps"
  by (induction ps arbitrary: iv) (simp_all add: Let_def)

lemma length_cbc_decrypt_blocks [simp]: "length (cbc_decrypt_blocks f iv cs) = length cs"
  by (induction cs arbitrary: iv) simp_all

lemma length_unblocks16 [simp]: "length (unblocks16 ws) = 16 * length ws"
  by (induction ws) (simp_all add: unblocks16_def)

lemma length_CBCEncrypt:
  "CBCEncrypt pr key iv src = Inr E \<Longrightarrow> length E = length src"
  by (auto simp add: CBCEncrypt_def length_blocks16 split: if_splits)

lemma length_CBCDecrypt:
  "CBCDecrypt pr key iv src = Inr E \<Longrightarrow> length E = length src"
  by (auto simp add: CBCDecrypt_def length_blocks16 split: if_splits)

lemma length_sha_Sum [simp]:
  "length (sha256_Sum pr d) = 32" "length (sha384_Sum pr d) = 48" "length (sha512_Sum pr d) = 64"
  by (simp_all add: sha256_Sum_def sha384_Sum_def sha512_Sum_def)

lemma length_concat_replicate [simp]: "length (concat (replicate k xs)) = k * length xs"
  by (induction k) simp_all

lemma alg2b_round_ok:
  assumes K: "32 \<le> length K" "length K \<le> 64"
    and sz: "length pwd + length userKey \<le> 175"
  shows "\<exists>E K'. alg2b_round pr pwd userKey K = Inr (E, K') \<and> E \<noteq> []
           \<and> 32 \<le> length K' \<and> length K' \<le> 64"
proof -
  let ?K1 = "concat (replicate 64 (pwd @ K @ userKey))"
  have big: "\<not> (length pwd + length K + length userKey) * 64 > 64 * (127 + 64 + 48)"
    using K sz by simp
  have s1: "slice K 0 16 = Inr (take 16 K)" and s2: "slice K 16 32 = Inr (take 16 (drop 16 K))"
    using K by (simp_all add: slice_def)
  have ac: "aes_NewCipher (take 16 K) = Inr (take 16 K)"
    using K by (simp add: aes_NewCipher_def)
  have iv: "length (take 16 (drop 16 K)) = 16"
    using K by simp
  have m16: "length ?K1 mod 16 = 0"
    by simp
  obtain E where E: "CBCEncrypt pr (take 16 K) (take 16 (drop 16 K)) ?K1 = Inr E"
    using iv m16 by (simp add: CBCEncrypt_def)
  have lenE: "length E = 64 * (length pwd + length K + length userKey)"
    using length_CBCEncrypt [OF E] by simp
  with K have E16: "\<not> length E < 16" and Enz: "E \<noteq> []"
    by auto
  show ?thesis
    unfolding alg2b_round_def Let_def
    using big E16 Enz
    by (simp add: s1 s2 ac E)
qed

lemma alg2b_round_Inl:
  assumes "alg2b_round pr pwd userKey K = Inl e" and "32 \<le> length K" "length K \<le> 64"
  shows "length pwd + length userKey > 175"
proof (rule ccontr)
  assume "\<not> 175 < length pwd + length userKey"
  then have "length pwd + length userKey \<le> 175" by simp
  from alg2b_round_ok [OF assms(2,3) this, of pr] assms(1) show False
    by auto
qed

lemma alg2b_round_Inr:
  assumes "alg2b_round pr pwd userKey K = Inr (E, K')"
  shows "32 \<le> length K' \<and> length K' \<le> 64"
  using assms unfolding alg2b_round_def Let_def
  by (auto split: if_splits sum.splits)












section \<open>Properties of the access rights\<close>

lemma Alg6_frame:
  "Alg6 pr crypt pw = (r, crypt') \<Longrightarrow>
     (r \<noteq> Inr True \<longrightarrow> crypt' = crypt) \<and> (\<exists>k. crypt' = crypt\<lparr>EncryptionKey := k\<rparr>)"
  unfolding Alg6_def Let_def
  by (auto split: sum.splits prod.splits if_splits intro: exI [of _ "EncryptionKey crypt"])

lemma Alg7_frame:
  "Alg7 pr crypt pw = (r, crypt') \<Longrightarrow>
     (r \<noteq> Inr True \<longrightarrow> crypt' = crypt) \<and> (\<exists>k. crypt' = crypt\<lparr>EncryptionKey := k\<rparr>)"
  unfolding Alg7_def
  by (auto split: sum.splits prod.splits if_splits bool.splits dest!: Alg6_frame
      intro: exI [of _ "EncryptionKey crypt"])

lemma GetAccessPermissions_EncryptionKey [simp]:
  "GetAccessPermissions (crypt\<lparr>EncryptionKey := k\<rparr>) = GetAccessPermissions crypt"
  by (simp add: GetAccessPermissions_def)

lemma checkAccessRights_cases:
  "fst (checkAccessRights pr crypt pw) =
     (case ownerCheck pr crypt pw of
        Inl e \<Rightarrow> (False, noPermissions, Some e)
      | Inr True \<Rightarrow> (True, allPermissions, None)
      | Inr False \<Rightarrow>
          (case userCheck pr crypt pw of
             Inl e \<Rightarrow> (False, noPermissions, Some e)
           | Inr True \<Rightarrow> (True, GetAccessPermissions crypt, None)
           | Inr False \<Rightarrow> (False, noPermissions, None)))"
proof (cases "crypt_R crypt \<ge> 5")
  case True
  then show ?thesis
    by (simp add: checkAccessRights_def ownerCheck_def userCheck_def Let_def
        split: sum.splits bool.splits)
next
  case False
  obtain r7 c7 where a7: "Alg7 pr crypt pw = (r7, c7)"
    by (cases "Alg7 pr crypt pw")
  obtain r6 c6 where a6: "Alg6 pr crypt pw = (r6, c6)"
    by (cases "Alg6 pr crypt pw")
  from Alg7_frame [OF a7] have f7: "r7 \<noteq> Inr True \<Longrightarrow> c7 = crypt"
    by simp
  from Alg6_frame [OF a6] obtain k where f6: "c6 = crypt\<lparr>EncryptionKey := k\<rparr>"
    by blast
  show ?thesis
  proof (cases r7)
    case (Inl e)
    with False a7 show ?thesis
      by (simp add: checkAccessRights_def ownerCheck_def Let_def)
  next
    case (Inr b)
    show ?thesis
    proof (cases b)
      case True
      with Inr False a7 show ?thesis
        by (simp add: checkAccessRights_def ownerCheck_def Let_def)
    next
      case b: False
      with Inr f7 have c7: "c7 = crypt" by simp
      show ?thesis
        using False a7 a6 Inr b c7 f6
        by (simp add: checkAccessRights_def ownerCheck_def userCheck_def Let_def
            split: sum.splits bool.splits)
    qed
  qed
qed

lemma doc_two_passwords_made:
  "Alg3 toy_prims doc_two_passwords (ascii ''user'') (ascii ''owner'') = Inr (crypt_O doc_two_passwords)
   \<and> map_sum id fst (Alg4 toy_prims doc_two_passwords (ascii ''user'')) = Inr (crypt_U doc_two_passwords)"
  by code_simp

lemma doc_no_owner_password_made:
  "Alg3 toy_prims doc_no_owner_password [] [] = Inr (crypt_O doc_no_owner_password)
   \<and> map_sum id fst (Alg4 toy_prims doc_no_owner_password []) = Inr (crypt_U doc_no_owner_password)"
  by code_simp

lemma doc_two_passwords_checks:
  "ownerCheck toy_prims doc_two_passwords (ascii ''owner'') = Inr True"
  "ownerCheck toy_prims doc_two_passwords (ascii ''user'') = Inr False"
  "userCheck toy_prims doc_two_passwords (ascii ''user'') = Inr True"
  "ownerCheck toy_prims doc_two_passwords (ascii ''guess'') = Inr False"
  "userCheck toy_prims doc_two_passwords (ascii ''guess'') = Inr False"
  by code_simp+

lemma doc_no_owner_password_checks:
  "ownerCheck toy_prims doc_no_owner_password [] = Inr True"
  "userCheck toy_prims doc_no_owner_password [] = Inr True"
  by code_simp+

text \<open>
  Claim C2, as stated, says that \<^verbatim>\<open>checkAccessRights\<close> called with the user password
  returns exactly the permissions decoded from P.  The owner check comes first: for a
  document written without an owner password, Algorithm 3 derives O from the user
  password, the owner check accepts the user password, and every permission is granted
  although P grants none.
\<close>

theorem C2_checkAccessRights_counterexample:
  "userCheck toy_prims doc_no_owner_password [] = Inr True
   \<and> GetAccessPermissions doc_no_owner_password = noPermissions
   \<and> fst (checkAccessRights toy_prims doc_no_owner_password []) = (True, allPermissions, None)"
proof -
  have "GetAccessPermissions doc_no_owner_password = noPermissions"
    by code_simp
  then show ?thesis
    by (simp add: checkAccessRights_cases doc_no_owner_password_checks)
qed

text \<open>
  Claim C2, amended: for every document and every password, \<^verbatim>\<open>checkAccessRights\<close>
  \<^item> returns access granted with every permission field set when the owner check
    (Algorithm 12 for revisions 5 and 6, Algorithm 7 before) accepts the password;
  \<^item> returns access granted with exactly the permissions decoded from P when the owner
    check rejects the password and the user check (Algorithm 11, or 6) accepts it;
  \<^item> returns (false, empty permissions, nil) when both checks reject it;
  \<^item> returns (false, empty permissions, the error) when a check fails with an error.
\<close>

theorem C2_checkAccessRights:
  "(ownerCheck pr crypt pw = Inr True \<longrightarrow>
      fst (checkAccessRights pr crypt pw) = (True, allPermissions, None))
   \<and> (ownerCheck pr crypt pw = Inr False \<and> userCheck pr crypt pw = Inr True \<longrightarrow>
      fst (checkAccessRights pr crypt pw) = (True, GetAccessPermissions crypt, None))
   \<and> (ownerCheck pr crypt pw = Inr False \<and> userCheck pr crypt pw = Inr False \<longrightarrow>
      fst (checkAccessRights pr crypt pw) = (False, noPermissions, None))
   \<and> (\<forall>e. ownerCheck pr crypt pw = Inl e
            \<or> (ownerCheck pr crypt pw = Inr False \<and> userCheck pr crypt pw = Inl e) \<longrightarrow>
      fst (checkAccessRights pr crypt pw) = (False, noPermissions, Some e))"
  by (auto simp add: checkAccessRights_cases)

theorem C2_checkAccessRights_witness:
  "fst (checkAccessRights toy_prims doc_two_passwords (ascii ''owner'')) = (True, allPermissions, None)
   \<and> fst (checkAccessRights toy_prims doc_two_passwords (ascii ''user''))
       = (True, GetAccessPermissions doc_two_passwords, None)
   \<and> fst (checkAccessRights toy_prims doc_two_passwords (ascii ''guess'')) = (False, noPermissions, None)"
  using C2_checkAccessRights [of toy_prims doc_two_passwords "ascii ''owner''"]
    C2_checkAccessRights [of toy_prims doc_two_passwords "ascii ''user''"]
    C2_checkAccessRights [of toy_prims doc_two_passwords "ascii ''guess''"]
  by (simp add: doc_two_passwords_checks)

section \<open>Properties of Algorithm 2.A\<close>

lemma crypt_alg2b_Authenticated [simp]:
  "crypt_alg2b pr (crypt\<lparr>Authenticated := b\<rparr>) = crypt_alg2b pr crypt"
  by (simp add: crypt_alg2b_def fun_eq_iff)

lemma alg11_Authenticated [simp]:
  "alg11 pr (crypt\<lparr>Authenticated := b\<rparr>) pw = alg11 pr crypt pw"
  by (simp add: alg11_def cong: sum.case_cong)

lemma alg12_Authenticated [simp]:
  "alg12 pr (crypt\<lparr>Authenticated := b\<rparr>) pw = alg12 pr crypt pw"
  by (simp add: alg12_def cong: sum.case_cong)

lemma alg12_Inr_length_U:
  "alg12 pr crypt pw = Inr h \<Longrightarrow> 48 \<le> length (crypt_U crypt)"
  by (auto simp add: alg12_def slice_def split: sum.splits if_splits)

lemma alg2a_fallback:
  assumes pass: "pass = take 127 pass0"
    and owner: "alg12 pr crypt pass = Inr []"
    and user: "alg11 pr crypt pass = Inr []"
    and empty: "alg11 pr crypt [] = Inr h" "h \<noteq> []"
  shows "alg2a pr crypt pass0 =
           alg2a_key pr crypt pass (pass @ take 8 (drop 40 (crypt_U crypt))) (crypt_UE crypt) []"
proof -
  have p: "(if length pass0 > 127 then take 127 pass0 else pass0) = pass"
    using pass by simp
  have "slice (crypt_U crypt) 40 48 = Inr (take 8 (drop 40 (crypt_U crypt)))"
    using alg12_Inr_length_U [OF owner] by (simp add: slice_def)
  then show ?thesis
    unfolding alg2a_def Let_def p
    using owner user empty by simp
qed

lemma alg2a_key_R5:
  assumes "crypt_R crypt = 5" and "32 \<le> length ekey"
  shows "\<exists>fkey. CBCDecrypt pr (sha256_Sum pr data) (replicate 16 0) (take 32 ekey) = Inr fkey
           \<and> alg2a_key pr crypt pass data ekey ukey = (Inr True, crypt\<lparr>EncryptionKey := fkey\<rparr>)"
proof -
  have "length (take 32 ekey) mod 16 = 0"
    using assms(2) by simp
  then obtain fkey where f: "CBCDecrypt pr (sha256_Sum pr data) (replicate 16 0) (take 32 ekey) = Inr fkey"
    by (simp add: CBCDecrypt_def)
  have "alg2a_key pr crypt pass data ekey ukey = (Inr True, crypt\<lparr>EncryptionKey := fkey\<rparr>)"
    unfolding alg2a_key_def
    using assms f
    by (simp add: slice_def crypt_alg2b_def alg2b_R5_def aes_NewCipher_def)
  with f show ?thesis by blast
qed

lemma alg2a_key_R6:
  assumes "crypt_R crypt \<noteq> 5" and "32 \<le> length ekey"
    and "crypt_alg2b pr crypt data pass ukey = Inr ikey" and "32 \<le> length ikey"
    and "CBCDecrypt pr (take 32 ikey) (replicate 16 0) (take 32 ekey) = Inr fkey"
  shows "alg2a_key pr crypt pass data ekey ukey = alg13 pr (crypt\<lparr>EncryptionKey := fkey\<rparr>) fkey"
  unfolding alg2a_key_def
  using assms
  by (simp add: slice_def aes_NewCipher_def)

lemma alg2b_length:
  "alg2b pr data pwd userKey = Inr ikey \<Longrightarrow> length ikey = 32"
  by (auto simp add: alg2b_def slice_def split: sum.splits if_splits)

lemma take_127_pass: "(if length pass0 > 127 then take 127 pass0 else pass0) = take 127 pass0"
  by simp

text \<open>
  Claim C10: when the supplied password matches neither the owner hash nor the user
  hash and the empty password matches the user hash, \<^verbatim>\<open>alg2a\<close> goes on, but with the
  supplied password: the intermediate key is the hash of the supplied password and the
  user key salt.  For revision 5, \<^verbatim>\<open>authenticate\<close> returns true and stores as document
  key the decryption of UE under that key.  For revision 6 its answer is that of
  \<^verbatim>\<open>alg13\<close> for the key so decrypted, not true in general.
\<close>

theorem C10_alg2a_empty_user_password:
  assumes "5 \<le> crypt_R crypt"
    and "alg12 pr crypt (take 127 pass0) = Inr []"
    and "alg11 pr crypt (take 127 pass0) = Inr []"
    and "alg11 pr crypt [] = Inr h" and "h \<noteq> []"
    and "32 \<le> length (crypt_UE crypt)"
  shows "(crypt_R crypt = 5 \<longrightarrow>
           (\<exists>fkey. CBCDecrypt pr (sha256_Sum pr (take 127 pass0 @ take 8 (drop 40 (crypt_U crypt))))
                      (replicate 16 0) (take 32 (crypt_UE crypt)) = Inr fkey
                \<and> authenticate pr crypt pass0
                    = (Inr True, crypt\<lparr>Authenticated := True, EncryptionKey := fkey\<rparr>)))
       \<and> (crypt_R crypt \<noteq> 5 \<longrightarrow>
           (\<forall>ikey fkey.
              alg2b pr (take 127 pass0 @ take 8 (drop 40 (crypt_U crypt))) (take 127 pass0) [] = Inr ikey
              \<and> CBCDecrypt pr ikey (replicate 16 0) (take 32 (crypt_UE crypt)) = Inr fkey \<longrightarrow>
              fst (authenticate pr crypt pass0)
                = fst (alg13 pr (crypt\<lparr>Authenticated := False, EncryptionKey := fkey\<rparr>) fkey)))"
proof -
  let ?c = "crypt\<lparr>Authenticated := False\<rparr>"
  let ?pass = "take 127 pass0"
  let ?data = "?pass @ take 8 (drop 40 (crypt_U crypt))"
  have fb: "alg2a pr ?c pass0 = alg2a_key pr ?c ?pass ?data (crypt_UE crypt) []"
    using alg2a_fallback [of ?pass pass0 pr ?c h] assms(2-5) by simp
  have r5: ?thesis if R: "crypt_R crypt = 5"
  proof -
    from alg2a_key_R5 [of ?c "crypt_UE crypt" pr ?data ?pass "[]"] R assms(6)
    obtain fkey where f: "CBCDecrypt pr (sha256_Sum pr ?data) (replicate 16 0) (take 32 (crypt_UE crypt)) = Inr fkey"
      and k: "alg2a_key pr ?c ?pass ?data (crypt_UE crypt) [] = (Inr True, ?c\<lparr>EncryptionKey := fkey\<rparr>)"
      by auto
    have "authenticate pr crypt pass0 = (Inr True, crypt\<lparr>Authenticated := True, EncryptionKey := fkey\<rparr>)"
      using R fb k by (simp add: authenticate_def Let_def)
    with f R show ?thesis by blast
  qed
  have r6: ?thesis if R: "crypt_R crypt \<noteq> 5"
  proof -
    have "fst (authenticate pr crypt pass0)
            = fst (alg13 pr (crypt\<lparr>Authenticated := False, EncryptionKey := fkey\<rparr>) fkey)"
      if ik: "alg2b pr ?data ?pass [] = Inr ikey"
        and fk: "CBCDecrypt pr ikey (replicate 16 0) (take 32 (crypt_UE crypt)) = Inr fkey"
      for ikey fkey
    proof -
      have len: "length ikey = 32"
        using alg2b_length [OF ik] .
      have "alg2a_key pr ?c ?pass ?data (crypt_UE crypt) [] = alg13 pr (?c\<lparr>EncryptionKey := fkey\<rparr>) fkey"
        using R assms(6) ik fk len
        by (intro alg2a_key_R6 [where ikey = ikey]) (simp_all add: crypt_alg2b_def)
      with fb have "alg2a pr ?c pass0 = alg13 pr (?c\<lparr>EncryptionKey := fkey\<rparr>) fkey"
        by simp
      then show ?thesis
        using assms(1)
        by (cases "alg13 pr (?c\<lparr>EncryptionKey := fkey\<rparr>) fkey")
          (auto simp add: authenticate_def Let_def split: sum.splits)
    qed
    with R show ?thesis by blast
  qed
  from r5 r6 show ?thesis by blast
qed

lemma doc_r5_checks:
  "alg12 toy_prims doc_r5 (take 127 (ascii ''x'')) = Inr []"
  "alg11 toy_prims doc_r5 (take 127 (ascii ''x'')) = Inr []"
  "alg11 toy_prims doc_r5 [] = Inr [0, 0, 0, 0, 0, 0, 0, 0, 0, 0, 0, 0, 0, 0, 0, 0, 0, 0, 0, 0, 0,
                                   0, 0, 0, 0, 0, 5, 116, 228, 229, 241, 139]"
  by code_simp+

theorem C10_alg2a_empty_user_password_witness:
  "\<exists>fkey. CBCDecrypt toy_prims
             (sha256_Sum toy_prims (take 127 (ascii ''x'') @ take 8 (drop 40 (crypt_U doc_r5))))
             (replicate 16 0) (take 32 (crypt_UE doc_r5)) = Inr fkey
     \<and> authenticate toy_prims doc_r5 (ascii ''x'')
         = (Inr True, doc_r5\<lparr>Authenticated := True, EncryptionKey := fkey\<rparr>)"
proof -
  have "crypt_R doc_r5 = 5" "32 \<le> length (crypt_UE doc_r5)"
    by (simp_all add: doc_r5_def)
  with C10_alg2a_empty_user_password [of doc_r5 toy_prims "ascii ''x''", OF _ doc_r5_checks]
  show ?thesis
    by simp
qed

lemma doc_r5_keys:
  "map_prod id EncryptionKey (authenticate toy_prims doc_r5 []) = (Inr True, map word_of_nat [160..<192])"
  "map_prod id EncryptionKey (authenticate toy_prims doc_r5 (ascii ''x''))
     = (Inr True, [160, 161, 162, 163, 164, 165, 166, 167, 168, 168, 170, 166, 140, 226, 87,
                   241, 176, 177, 178, 179, 180, 181, 182, 183, 184, 184, 186, 182, 156,
                   242, 71, 225])"
  by code_simp+

section \<open>Properties of the walker\<close>

lemma guarded_refl: "guarded m a e s s"
  by (simp add: guarded_def)

lemma guarded_trans: "guarded m a e s s1 \<Longrightarrow> guarded m a e s1 s2 \<Longrightarrow> guarded m a e s s2"
  unfolding guarded_def by auto

lemma guarded_same:
  "processed m s' = processed m s \<Longrightarrow> count_list (touched s') e = count_list (touched s) e
    \<Longrightarrow> guarded m a e s s'"
  by (simp add: guarded_def)

lemma processed_mark: "processed m (mark m a s) = insert a (processed m s)"
  by (cases m) (simp_all add: processed_def mark_def)

lemma touched_mark: "touched (mark m a s) = touched s"
  by (cases m) (simp_all add: mark_def)

lemma guarded_mark: "guarded m a e s (mark m b s)"
  by (auto simp add: guarded_def processed_mark touched_mark)

lemma processed_update:
  "processed m (s\<lparr>touched := t\<rparr>) = processed m s"
  "processed m (s\<lparr>heap := h\<rparr>) = processed m s"
  "processed m (s\<lparr>nreads := n\<rparr>) = processed m s"
  "processed m (s\<lparr>fresh := f\<rparr>) = processed m s"
  by (cases m; simp add: processed_def)+

lemma guarded_enter:
  "b \<notin> processed m s \<Longrightarrow> e = StreamBytes a \<or> e = IndirectEntered a
    \<Longrightarrow> guarded m a e s ((mark m b s)\<lparr>touched := touched s @ [IndirectEntered b]\<rparr>)"
  by (auto simp add: guarded_def processed_mark processed_update)

lemma setLength_same: "processed m (setLength s d n) = processed m s \<and> touched (setLength s d n) = touched s"
  by (simp add: setLength_def processed_update Let_def split: option.splits PdfObject.splits)

lemma walkString_effect:
  "processed m (fst (walkString pr m s obj str pn pg)) = processed m s
   \<and> (touched (fst (walkString pr m s obj str pn pg)) = touched s
      \<or> touched (fst (walkString pr m s obj str pn pg)) = touched s @ [StringBytes obj])"
  by (simp add: walkString_def processed_update Let_def split: sum.splits prod.splits option.splits)

lemma walkStreamBytes_effect:
  "processed m (fst (walkStreamBytes pr m s so d f objNum genNum)) = processed m s
   \<and> (touched (fst (walkStreamBytes pr m s so d f objNum genNum)) = touched s
      \<or> touched (fst (walkStreamBytes pr m s so d f objNum genNum)) = touched s @ [StreamBytes so])"
  by (simp add: walkStreamBytes_def processed_update setLength_same Let_def
      split: sum.splits prod.splits option.splits PdfObject.splits)

lemma guarded_walkString:
  "e = StreamBytes a \<or> e = IndirectEntered a \<Longrightarrow> guarded m a e s (fst (walkString pr m s obj str pn pg))"
  using walkString_effect [of m pr s obj str pn pg] by (auto intro!: guarded_same)

lemma guarded_stream:
  assumes e: "e = StreamBytes a \<or> e = IndirectEntered a"
    and new: "so \<notin> processed m s"
    and inner: "guarded m a e (mark m so s) s2"
  shows "guarded m a e s (fst (walkStreamBytes pr m s2 so d f objNum genNum))"
proof (cases "e = StreamBytes so")
  case False
  have "guarded m a e s2 (fst (walkStreamBytes pr m s2 so d f objNum genNum))"
    using walkStreamBytes_effect [of m pr s2 so d f objNum genNum] False
    by (auto intro!: guarded_same)
  with guarded_trans [OF guarded_mark inner] show ?thesis by (rule guarded_trans)
next
  case True
  with e have a: "a = so" by auto
  show ?thesis
    using walkStreamBytes_effect [of m pr s2 so d f objNum genNum] inner new
    unfolding guarded_def a True processed_mark touched_mark
    by auto
qed

lemma walk_guarded:
  assumes e: "e = StreamBytes a \<or> e = IndirectEntered a"
  shows "guarded m a e s (fst (walk pr m depth s obj pn pg))"
    and "guarded m a e s (fst (walkArray pr m depth s xs pn pg))"
    and "guarded m a e s (fst (walkDict pr m depth s d isSig keys pn pg))"
proof (induction pr m depth s obj pn pg and pr m depth s xs pn pg and pr m depth s d isSig keys pn pg
    rule: walk_walkArray_walkDict.induct)
  case (1 pr m s obj pn pg)
  show ?case by (simp add: guarded_refl)
next
  case (2 pr m depth s obj pn pg)
  show ?case
  proof (cases "obj \<in> processed m s")
    case True
    then show ?thesis by (simp add: guarded_refl)
  next
    case new: False
    show ?thesis
    proof (cases "heap s obj")
      case None
      with new show ?thesis by (simp add: guarded_refl)
    next
      case at: (Some x)
      show ?thesis
      proof (cases x)
        case io: (PdfIndirectObject objNum genNum inner)
        have "guarded m a e (mark m obj s\<lparr>touched := touched s @ [IndirectEntered obj]\<rparr>)
            (fst (walk pr m depth (mark m obj s\<lparr>touched := touched s @ [IndirectEntered obj]\<rparr>)
               inner objNum genNum))"
          using 2(1) [OF new at io] .
        with guarded_enter [OF new e]
        have "guarded m a e s
            (fst (walk pr m depth (mark m obj s\<lparr>touched := touched s @ [IndirectEntered obj]\<rparr>)
               inner objNum genNum))"
          by (rule guarded_trans)
        then show ?thesis using new at io by simp
      next
        case so: (PdfObjectStream objNum genNum dict stream)
        show ?thesis
        proof (cases "streamFilterOf (mark m obj s) dict")
          case (Inl err)
          then show ?thesis using new at so by (simp add: Let_def guarded_mark)
        next
          case filter: (Inr streamFilter)
          show ?thesis
          proof (cases "4 \<le> crypt_V (ws_crypt (mark m obj s)) \<and> streamFilter = ''Identity''")
            case True
            then show ?thesis using new at so filter by (simp add: Let_def guarded_mark)
          next
            case False
            have inner: "guarded m a e (mark m obj s)
                (fst (walk pr m depth (mark m obj s) dict objNum genNum))"
              using 2(2) [OF new at so refl filter False] .
            show ?thesis
            proof (cases "walk pr m depth (mark m obj s) dict objNum genNum")
              case (Pair s2 err)
              show ?thesis
              proof (cases err)
                case None
                have "guarded m a e s (fst (walkStreamBytes pr m s2 obj dict streamFilter objNum genNum))"
                  using guarded_stream [OF e new] inner Pair by simp
                then show ?thesis using new at so filter Pair None by (simp add: Let_def if_not_P [OF False])
              next
                case (Some err')
                have "guarded m a e s s2"
                  using guarded_trans [OF guarded_mark] inner Pair by simp
                then show ?thesis using new at so filter Pair Some by (simp add: Let_def if_not_P [OF False])
              qed
            qed
          qed
        qed
      next
        case (PdfObjectString str)
        then show ?thesis using new at by (simp add: guarded_walkString [OF e])
      next
        case arr: (PdfObjectArray xs)
        show ?thesis using 2(3) [OF new at arr] new at arr by simp
      next
        case dict: (PdfObjectDictionary kvs)
        show ?thesis using 2(4) [OF new at dict] new at dict by simp
      next
        case (PdfObjectName n)
        then show ?thesis using new at by (simp add: guarded_refl)
      next
        case (PdfObjectInteger i)
        then show ?thesis using new at by (simp add: guarded_refl)
      next
        case PdfObjectNull
        then show ?thesis using new at by (simp add: guarded_refl)
      qed
    qed
  qed
next
  case (3 pr m depth s pn pg)
  show ?case by (simp add: guarded_refl)
next
  case (4 pr m depth s x xs pn pg)
  show ?case
  proof (cases "walk pr m depth s x pn pg")
    case (Pair s' err)
    have g1: "guarded m a e s s'" using 4(1) Pair by simp
    show ?thesis
    proof (cases err)
      case None
      have "guarded m a e s' (fst (walkArray pr m depth s' xs pn pg))"
        using 4(2) [OF Pair [symmetric] None] .
      with g1 show ?thesis using Pair None by (simp add: guarded_trans)
    next
      case (Some x)
      with g1 Pair show ?thesis by simp
    qed
  qed
next
  case (5 pr m depth s d isSig pn pg)
  show ?case by (simp add: guarded_refl)
next
  case (6 pr m depth s d isSig keyidx keys pn pg)
  define v where "v = (case heap s d of None \<Rightarrow> None
      | Some (PdfObjectDictionary kvs) \<Rightarrow> dict_Get kvs keyidx | Some _ \<Rightarrow> None)"
  show ?case
  proof (cases "isSig \<and> keyidx = ''Contents''")
    case True
    have "walkDict pr m depth s d isSig (keyidx # keys) pn pg
        = walkDict pr m depth s d isSig keys pn pg"
      using True by auto
    with 6(1) [OF True] show ?thesis by simp
  next
    case notsig: False
    show ?thesis
    proof (cases "keyidx \<noteq> ''Parent'' \<and> keyidx \<noteq> ''Prev'' \<and> keyidx \<noteq> ''Last''")
      case False
      have "walkDict pr m depth s d isSig (keyidx # keys) pn pg
          = walkDict pr m depth s d isSig keys pn pg"
        using notsig False by auto
      with 6(5) [OF notsig False] show ?thesis by simp
    next
      case walked: True
      have eq: "walkDict pr m depth s d isSig (keyidx # keys) pn pg =
          (case v of
             None \<Rightarrow> walkDict pr m depth s d isSig keys pn pg
           | Some x \<Rightarrow>
               (case walk pr m depth s x pn pg of
                  (s', Some e) \<Rightarrow> (s', Some e)
                | (s', None) \<Rightarrow> walkDict pr m depth s' d isSig keys pn pg))"
        using notsig walked by (auto simp add: v_def)
      show ?thesis
      proof (cases v)
        case None
        show ?thesis using 6(2) [OF notsig walked None [unfolded v_def]] unfolding eq None by simp
      next
        case val: (Some x)
        show ?thesis
        proof (cases "walk pr m depth s x pn pg")
          case (Pair s' err)
          have g1: "guarded m a e s s'"
            using 6(3) [OF notsig walked val [unfolded v_def]] Pair by simp
          show ?thesis
          proof (cases err)
            case None
            have "guarded m a e s' (fst (walkDict pr m depth s' d isSig keys pn pg))"
              using 6(4) [OF notsig walked val [unfolded v_def] Pair [symmetric] None] .
            with g1 show ?thesis unfolding eq val by (simp add: Pair None guarded_trans)
          next
            case (Some err')
            with g1 show ?thesis unfolding eq val by (simp add: Pair)
          qed
        qed
      qed
    qed
  qed
qed

lemma opened_doc_key: "EncryptionKey opened_doc = [16, 65, 96, 86, 187] \<and> Authenticated opened_doc"
  by code_simp

lemma shared_stream_walk:
  "touched (fst (Decrypt toy_prims 10 shared_stream_state 50 0 0)) = [StreamBytes 40]"
  "snd (Decrypt toy_prims 10 shared_stream_state 50 0 0) = None"
  "touched (fst (Encrypt toy_prims 10 shared_stream_state 50 0 0)) = [StreamBytes 40]"
  "snd (Encrypt toy_prims 10 shared_stream_state 50 0 0) = None"
  by code_simp+

text \<open>
  Claim C4, as stated, says that in one pass no string, stream or other object has the
  byte-level transformation applied twice, because the walker memoizes the processed
  objects by identity.  \<^verbatim>\<open>Decrypt\<close> and \<^verbatim>\<open>Encrypt\<close> record indirect objects and streams
  only; a string is never recorded.  In the first graph the walk from the array enters
  the indirect objects 10 and 20 once each (the second occurrence of 10 is skipped) and
  gives the bytes of the string at address 1 to \<^verbatim>\<open>decryptBytes\<close> (to \<^verbatim>\<open>encryptBytes\<close>)
  twice, once for each dictionary that holds it.
\<close>

theorem C4_walker_counterexample:
  "touched (fst (Decrypt toy_prims 10 shared_string_state 30 0 0))
     = [IndirectEntered 10, StringBytes 1, IndirectEntered 20, StringBytes 1]
   \<and> snd (Decrypt toy_prims 10 shared_string_state 30 0 0) = None
   \<and> touched (fst (Encrypt toy_prims 10 shared_string_state 30 0 0))
     = [IndirectEntered 10, StringBytes 1, IndirectEntered 20, StringBytes 1]
   \<and> snd (Encrypt toy_prims 10 shared_string_state 30 0 0) = None"
  by code_simp

text \<open>
  Claim C4, amended: in one pass of \<^verbatim>\<open>Decrypt\<close> or of \<^verbatim>\<open>Encrypt\<close>, whatever the graph,
  the paths to an object and the depth the stack allows, and whether the pass ends with
  an error or not, every indirect object is entered at most once and the bytes of every
  stream are transformed at most once.  (Strings, arrays and dictionaries are processed
  once for each path that reaches them without passing through a processed object.)
\<close>

theorem C4_walker_once:
  assumes "touched s = []"
  shows "count_list (touched (fst (Decrypt pr depth s obj parentObjNum parentGenNum))) (StreamBytes a) \<le> 1
       \<and> count_list (touched (fst (Decrypt pr depth s obj parentObjNum parentGenNum))) (IndirectEntered a) \<le> 1
       \<and> count_list (touched (fst (Encrypt pr depth s obj parentObjNum parentGenNum))) (StreamBytes a) \<le> 1
       \<and> count_list (touched (fst (Encrypt pr depth s obj parentObjNum parentGenNum))) (IndirectEntered a) \<le> 1"
proof -
  have "count_list (touched (fst (walk pr m depth s obj parentObjNum parentGenNum))) e \<le> 1"
    if "e = StreamBytes a \<or> e = IndirectEntered a" for m e
    using walk_guarded(1) [OF that, of m s pr depth obj parentObjNum parentGenNum] assms
    by (auto simp add: guarded_def)
  then show ?thesis by (simp add: Decrypt_def Encrypt_def)
qed


theorem C4_walker_once_witness:
  "touched shared_stream_state = []
   \<and> touched (fst (Decrypt toy_prims 10 shared_stream_state 50 0 0)) = [StreamBytes 40]
   \<and> count_list (touched (fst (Decrypt toy_prims 10 shared_stream_state 50 0 0))) (StreamBytes 40) \<le> 1
   \<and> count_list (touched (fst (Encrypt toy_prims 10 shared_stream_state 50 0 0))) (StreamBytes 40) \<le> 1"
  using C4_walker_once [of shared_stream_state toy_prims 10 50 0 0 40]
  by (simp add: shared_stream_state_def shared_stream_walk [unfolded shared_stream_state_def])

end
